theory Spec2Isabelle
  imports Complex_Main
begin

section \<open>Arrays\<close>

text \<open>
  The program computes with numpy arrays of floats. A one-dimensional array is a list of
  reals and a two-dimensional array is the list of its rows. Floating-point rounding is
  not part of the model: every arithmetic operation is the exact one on the reals.
  The operations below are the numpy operations on arrays of conforming shapes; what
  numpy does with shapes that do not conform (broadcasting, or raising ValueError) is
  not modelled, and every theorem names the shapes it is about.
\<close>

type_synonym vec = "real list"
type_synonym mat = "real list list"

text \<open>
  \<^verbatim>\<open>M.shape[0]\<close> and \<^verbatim>\<open>M.shape[1]\<close>. A list of rows has no column count when it
  has no row; the model gives 0 there.
\<close>

definition shape0 :: "mat \<Rightarrow> nat" where
  "shape0 M = length M"

definition shape1 :: "mat \<Rightarrow> nat" where
  "shape1 M = (case M of [] \<Rightarrow> 0 | r # _ \<Rightarrow> length r)"

text \<open>A matrix of shape \<open>n \<times> m\<close>.\<close>

definition has_shape :: "nat \<Rightarrow> nat \<Rightarrow> mat \<Rightarrow> bool" where
  "has_shape n m M = (length M = n \<and> list_all (\<lambda>r. length r = m) M)"

definition column :: "mat \<Rightarrow> nat \<Rightarrow> vec" where
  "column M j = map (\<lambda>r. r ! j) M"

text \<open>\<^verbatim>\<open>M.T\<close>\<close>

definition mT :: "mat \<Rightarrow> mat" where
  "mT M = map (column M) [0..<shape1 M]"

definition vdot :: "vec \<Rightarrow> vec \<Rightarrow> real" where
  "vdot u v = sum_list (map2 (*) u v)"

text \<open>\<^verbatim>\<open>A.dot(B)\<close>\<close>

definition dot :: "mat \<Rightarrow> mat \<Rightarrow> mat" where
  "dot A B = map (\<lambda>r. map (\<lambda>j. vdot r (column B j)) [0..<shape1 B]) A"

text \<open>\<^verbatim>\<open>A + B\<close>, \<^verbatim>\<open>A - B\<close>, \<^verbatim>\<open>k * A\<close> and \<^verbatim>\<open>A / k\<close>, entry by entry.\<close>

definition madd :: "mat \<Rightarrow> mat \<Rightarrow> mat" where
  "madd A B = map2 (map2 (+)) A B"

definition msub :: "mat \<Rightarrow> mat \<Rightarrow> mat" where
  "msub A B = map2 (map2 (-)) A B"

definition smul :: "real \<Rightarrow> mat \<Rightarrow> mat" where
  "smul k A = map (map (\<lambda>x. k * x)) A"

definition sdiv :: "mat \<Rightarrow> real \<Rightarrow> mat" where
  "sdiv A k = map (map (\<lambda>x. x / k)) A"

text \<open>\<^verbatim>\<open>np.zeros((n, m))\<close>\<close>

definition zeros :: "nat \<Rightarrow> nat \<Rightarrow> mat" where
  "zeros n m = replicate n (replicate m 0)"

text \<open>\<^verbatim>\<open>np.eye(n)\<close>\<close>

definition eye :: "nat \<Rightarrow> mat" where
  "eye n = map (\<lambda>i. map (\<lambda>j. if i = j then 1 else 0) [0..<n]) [0..<n]"

section \<open>Target covariance\<close>

text \<open>
  \<^verbatim>\<open>utils.estimate_h0\<close>:
  \<^verbatim>\<open>return innov.T.dot(innov) / innov.shape[0]\<close>
  The division is the true division of floats. For a series without observations numpy
  divides by zero; the model has the empty matrix there.
\<close>

definition estimate_h0 :: "mat \<Rightarrow> mat" where
  "estimate_h0 innov = sdiv (dot (mT innov) innov) (real (shape0 innov))"

text \<open>
  The target of \<^verbatim>\<open>BEKK.estimate\<close>:
  \<^verbatim>\<open>
  nstocks = self.innov.shape[1]
  if var_target:
      target = self.innov.T.dot(self.innov) / nstocks
  else:
      target = None
  \<close>
\<close>

definition estimate_target :: "mat \<Rightarrow> bool \<Rightarrow> mat option" where
  "estimate_target innov var_target =
     (let nstocks = shape1 innov
      in if var_target then Some (sdiv (dot (mT innov) innov) (real nstocks)) else None)"

section \<open>Covariance recursion\<close>

text \<open>
  \<^verbatim>\<open>hvar[lo:hi, lo:hi]\<close> read: numpy clips a slice to the array, as \<open>take\<close> and
  \<open>drop\<close> do.
\<close>

definition get_block :: "mat \<Rightarrow> nat \<Rightarrow> nat \<Rightarrow> mat" where
  "get_block H lo hi = map (\<lambda>r. take (hi - lo) (drop lo r)) (take (hi - lo) (drop lo H))"

text \<open>
  \<^verbatim>\<open>hvar[lo:hi, lo:hi] = M\<close>: the entries of the rows and columns \<open>lo..<hi\<close> are
  overwritten with the entries of \<open>M\<close>, every other entry is kept. The array is
  modified in place; the model returns the new array.
\<close>

definition set_block :: "mat \<Rightarrow> nat \<Rightarrow> nat \<Rightarrow> mat \<Rightarrow> mat" where
  "set_block H lo hi M =
     map (\<lambda>r. if lo \<le> r \<and> r < hi
               then map (\<lambda>c. if lo \<le> c \<and> c < hi then M ! (r - lo) ! (c - lo) else H ! r ! c)
                      [0..<length (H ! r)]
               else H ! r)
       [0..<length H]"

text \<open>
  \<^verbatim>\<open>innov2 = innov[:, np.newaxis, :] * innov[:, :, np.newaxis]\<close>: entry \<open>[t, j, k]\<close> is
  \<open>innov[t, k] * innov[t, j]\<close>.
\<close>

definition innov_squares :: "mat \<Rightarrow> mat list" where
  "innov_squares innov = map (\<lambda>u. map (\<lambda>uj. map (\<lambda>uk. uk * uj) u) u) innov"

text \<open>
  One pass of the loop body of \<^verbatim>\<open>utils.filter_var\<close>:
  \<^verbatim>\<open>
  idx1 = slice((i-1)*nstocks, i*nstocks)
  idx2 = slice(i*nstocks, (i+1)*nstocks)
  hvar[idx2, idx2] = cc_mat + a_mat.dot(innov2[i-1]).dot(a_mat.T) \
      + b_mat.dot(hvar[idx1, idx1]).dot(b_mat.T)
  \<close>
\<close>

definition filter_step :: "nat \<Rightarrow> mat \<Rightarrow> mat \<Rightarrow> mat \<Rightarrow> mat list \<Rightarrow> mat \<Rightarrow> nat \<Rightarrow> mat" where
  "filter_step nstocks cc_mat a_mat b_mat innov2 hvar i =
     set_block hvar (i * nstocks) ((i + 1) * nstocks)
       (madd (madd cc_mat (dot (dot a_mat (innov2 ! (i - 1))) (mT a_mat)))
          (dot (dot b_mat (get_block hvar ((i - 1) * nstocks) (i * nstocks))) (mT b_mat)))"

text \<open>
  \<^verbatim>\<open>utils.filter_var(hvar, innov, c_mat, a_mat, b_mat)\<close>. The buffer \<open>hvar\<close> is a
  two-dimensional array that holds the covariance of time \<open>t\<close> in its diagonal block
  \<open>t\<close>:
  \<^verbatim>\<open>
  nobs, nstocks = innov.shape
  cc_mat = c_mat.dot(c_mat.T)
  innov2 = innov[:, np.newaxis, :] * innov[:, :, np.newaxis]
  for i in range(1, nobs):
      ...
  return hvar
  \<close>
\<close>

definition filter_var :: "mat \<Rightarrow> mat \<Rightarrow> mat \<Rightarrow> mat \<Rightarrow> mat \<Rightarrow> mat" where
  "filter_var hvar innov c_mat a_mat b_mat =
     (let nobs = shape0 innov;
          nstocks = shape1 innov;
          cc_mat = dot c_mat (mT c_mat);
          innov2 = innov_squares innov
      in foldl (filter_step nstocks cc_mat a_mat b_mat innov2) hvar [1..<nobs])"

text \<open>The outer product \<open>u u'\<close> of a vector with itself.\<close>

definition outer :: "vec \<Rightarrow> mat" where
  "outer u = map (\<lambda>x. map (\<lambda>y. x * y) u) u"

text \<open>
  \<^verbatim>\<open>utils._bekk_recursion(param, hzero, hone, htwo)\<close>, with the two matrices of
  \<open>param\<close> that it reads:
  \<^verbatim>\<open>
  return hzero + param.a_mat.dot(hone).dot(param.a_mat.T) \
      + param.b_mat.dot(htwo).dot(param.b_mat.T)
  \<close>
\<close>

definition bekk_recursion :: "mat \<Rightarrow> mat \<Rightarrow> mat \<Rightarrow> mat \<Rightarrow> mat \<Rightarrow> mat" where
  "bekk_recursion a_mat b_mat hzero hone htwo =
     madd (madd hzero (dot (dot a_mat hone) (mT a_mat))) (dot (dot b_mat htwo) (mT b_mat))"

section \<open>Exceptions and library routines\<close>

text \<open>
  The exceptions that the modelled code raises or catches. A function that can raise
  returns \<open>error + 'a\<close>, with \<open>Inl\<close> for the exception that leaves it.
\<close>

datatype error = LinAlgError | RuntimeError | ValueError | AttributeError | IndexError

text \<open>
  The numerical routines of scipy that the program calls are not part of the repository.
  Each function below that calls one takes it as its first argument: \<open>cholesky\<close> for
  \<^verbatim>\<open>scipy.linalg.cholesky\<close>, \<open>solver\<close> for \<^verbatim>\<open>scipy.optimize.fixed_point\<close>,
  \<open>eigvals\<close> for \<^verbatim>\<open>scipy.linalg.eigvals\<close> and, further down, \<open>splu\<close> for
  \<^verbatim>\<open>scipy.sparse.linalg.splu\<close>. What a theorem needs to know of a routine is one of
  its assumptions.
\<close>

type_synonym cholesky_routine = "mat \<Rightarrow> bool \<Rightarrow> error + mat"
type_synonym fixed_point_routine = "(mat \<Rightarrow> mat) \<Rightarrow> mat \<Rightarrow> error + mat"
type_synonym eigvals_routine = "mat \<Rightarrow> error + complex list"

section \<open>Parameter matrices\<close>

text \<open>The attributes of \<^verbatim>\<open>ParamGeneric\<close>; \<open>cmat\<close> is \<^verbatim>\<open>None\<close> when no factor was found.\<close>

record param =
  amat :: mat
  bmat :: mat
  cmat :: "mat option"

text \<open>
  \<^verbatim>\<open>ParamGeneric.find_cmat(amat, bmat, target)\<close>:
  \<^verbatim>\<open>
  ccmat = target - amat.dot(target).dot(amat.T) \
      - bmat.dot(target).dot(bmat.T)
  try:
      return sl.cholesky(ccmat, 1)
  except sl.LinAlgError:
      return None
  \<close>
  The second argument of \<^verbatim>\<open>sl.cholesky\<close> is \<open>lower\<close>. Any other exception leaves
  \<open>find_cmat\<close>.
\<close>

definition target_residual :: "mat \<Rightarrow> mat \<Rightarrow> mat \<Rightarrow> mat" where
  "target_residual a b target =
     msub (msub target (dot (dot a target) (mT a))) (dot (dot b target) (mT b))"

definition find_cmat :: "cholesky_routine \<Rightarrow> mat \<Rightarrow> mat \<Rightarrow> mat \<Rightarrow> error + mat option" where
  "find_cmat cholesky a b target =
     (let ccmat = target_residual a b target
      in case cholesky ccmat True of
           Inr c \<Rightarrow> Inr (Some c)
         | Inl LinAlgError \<Rightarrow> Inr None
         | Inl e \<Rightarrow> Inl e)"

text \<open>
  \<^verbatim>\<open>ParamGeneric.fixed_point(uvar, amat, bmat, ccmat)\<close>:
  \<^verbatim>\<open>
  return 2 * uvar - ccmat - amat.dot(uvar).dot(amat.T) \
      - bmat.dot(uvar).dot(bmat.T)
  \<close>
\<close>

definition fixed_point :: "mat \<Rightarrow> mat \<Rightarrow> mat \<Rightarrow> mat \<Rightarrow> mat" where
  "fixed_point uvar a b ccmat =
     msub (msub (msub (smul 2 uvar) ccmat) (dot (dot a uvar) (mT a))) (dot (dot b uvar) (mT b))"

text \<open>
  \<^verbatim>\<open>ParamGeneric.find_stationary_var(amat, bmat, cmat)\<close>:
  \<^verbatim>\<open>
  hvar = np.eye(amat.shape[0])
  kwargs = {'amat': amat, 'bmat': bmat, 'ccmat': cmat.dot(cmat.T)}
  fun = partial(ParamGeneric.fixed_point, **kwargs)
  try:
      with np.errstate(divide='ignore', invalid='ignore'):
          return sco.fixed_point(fun, hvar)
  except RuntimeError:
      return None
  \<close>
  With \<open>cmat\<close> \<^verbatim>\<open>None\<close> the call \<^verbatim>\<open>cmat.dot\<close> raises AttributeError.
\<close>

definition find_stationary_var ::
    "fixed_point_routine \<Rightarrow> mat \<Rightarrow> mat \<Rightarrow> mat option \<Rightarrow> error + mat option" where
  "find_stationary_var solver a b c_opt =
     (let hvar = eye (shape0 a)
      in case c_opt of
           None \<Rightarrow> Inl AttributeError
         | Some c \<Rightarrow>
             (let ccmat = dot c (mT c);
                  fun = (\<lambda>uvar. fixed_point uvar a b ccmat)
              in case solver fun hvar of
                   Inr h \<Rightarrow> Inr (Some h)
                 | Inl RuntimeError \<Rightarrow> Inr None
                 | Inl e \<Rightarrow> Inl e))"

text \<open>\<^verbatim>\<open>ParamGeneric.get_uvar(self)\<close>\<close>

definition get_uvar :: "fixed_point_routine \<Rightarrow> param \<Rightarrow> error + mat option" where
  "get_uvar solver p = find_stationary_var solver (amat p) (bmat p) (cmat p)"

text \<open>
  \<^verbatim>\<open>np.kron(A, B)\<close>: the block matrix whose block \<open>(i, j)\<close> is \<open>A[i, j] * B\<close>.
\<close>

definition kron :: "mat \<Rightarrow> mat \<Rightarrow> mat" where
  "kron A B = concat (map (\<lambda>ra. map (\<lambda>rb. concat (map (\<lambda>x. map (\<lambda>y. x * y) rb) ra)) B) A)"

text \<open>\<^verbatim>\<open>xs.max()\<close>, which raises ValueError on an empty array.\<close>

fun np_max :: "real list \<Rightarrow> error + real" where
  "np_max [] = Inl ValueError"
| "np_max (x # xs) = Inr (fold max xs x)"

text \<open>
  \<^verbatim>\<open>ParamGeneric.constraint(self)\<close>:
  \<^verbatim>\<open>
  kron_a = np.kron(self.amat, self.amat)
  kron_b = np.kron(self.bmat, self.bmat)
  return np.abs(sl.eigvals(kron_a + kron_b)).max()
  \<close>
\<close>

definition constraint :: "eigvals_routine \<Rightarrow> param \<Rightarrow> error + real" where
  "constraint eigvals p =
     (let kron_a = kron (amat p) (amat p);
          kron_b = kron (bmat p) (bmat p)
      in case eigvals (madd kron_a kron_b) of
           Inl e \<Rightarrow> Inl e
         | Inr ev \<Rightarrow> np_max (map cmod ev))"

section \<open>The objective function\<close>

text \<open>
  A float that may be NaN. The covariance buffer of \<^verbatim>\<open>BEKK\<close>, the value of the
  objective function and the factor \<open>U\<close> of the likelihood evaluator need it: numpy
  stores NaN when \<^verbatim>\<open>None\<close> is assigned to entries of a float array, and the
  evaluator tests the diagonal of \<open>U\<close> for NaN.
\<close>

datatype npfloat = Float real | NaN

type_synonym cube = "npfloat list list list"

text \<open>\<^verbatim>\<open>np.zeros((nobs, nstocks, nstocks), dtype=float)\<close>\<close>

definition zeros3 :: "nat \<Rightarrow> nat \<Rightarrow> nat \<Rightarrow> cube" where
  "zeros3 nobs n m = replicate nobs (replicate n (replicate m (Float 0)))"

text \<open>
  The value that \<^verbatim>\<open>self.hvar[0] = uvar\<close> stores in the slot of shape
  \<open>nstocks \<times> nstocks\<close>: the entries of the matrix \<open>uvar\<close>, or NaN in every entry
  when \<open>uvar\<close> is \<^verbatim>\<open>None\<close>.
\<close>

definition slot_value :: "nat \<Rightarrow> mat option \<Rightarrow> npfloat list list" where
  "slot_value nstocks uvar =
     (case uvar of
        None \<Rightarrow> replicate nstocks (replicate nstocks NaN)
      | Some H \<Rightarrow> map (map Float) H)"

text \<open>
  The attributes of \<^verbatim>\<open>BEKK\<close> that \<^verbatim>\<open>likelihood\<close> reads or writes, and of
  \<^verbatim>\<open>self.param_start\<close> the one it reads.
\<close>

record start_param =
  restriction :: string

record bekk =
  self_innov :: mat
  self_param_start :: "start_param option"
  self_cython :: bool
  self_hvar :: "cube option"

text \<open>
  The collaborators of \<^verbatim>\<open>BEKK.likelihood\<close> that are not among the sources: the
  constructor of \<^verbatim>\<open>BEKKParams\<close>, which decodes \<open>theta\<close>; the library routines
  behind the methods of the decoded parameters; the compiled \<^verbatim>\<open>recursion\<close> and
  \<^verbatim>\<open>likelihood\<close>; and \<^verbatim>\<open>filter_var_python\<close> and \<^verbatim>\<open>likelihood_python\<close>.
  The filters modify the buffer in place; here they return it.
\<close>

record externals =
  ext_BEKKParams :: "vec \<Rightarrow> mat option \<Rightarrow> nat \<Rightarrow> string \<Rightarrow> error + param"
  ext_eigvals :: eigvals_routine
  ext_fixed_point :: fixed_point_routine
  ext_recursion :: "cube \<Rightarrow> mat \<Rightarrow> mat \<Rightarrow> mat \<Rightarrow> mat option \<Rightarrow> error + cube"
  ext_likelihood :: "cube \<Rightarrow> mat \<Rightarrow> error + npfloat"
  ext_filter_var_python :: "cube \<Rightarrow> mat \<Rightarrow> mat \<Rightarrow> mat \<Rightarrow> mat option \<Rightarrow> error + cube"
  ext_likelihood_python :: "cube \<Rightarrow> mat \<Rightarrow> error + npfloat"

text \<open>
  Modelled from the spec: \<^verbatim>\<open>BEKKParams.unconditional_var\<close>, a method of the class
  \<^verbatim>\<open>BEKKParams\<close> that is not among the sources. Section 4.1: ``Unconditional variance:
  delegates to the Fixed-Point Solver (4.2) using current A, B, C'', as
  \<^verbatim>\<open>ParamGeneric.get_uvar\<close> of the sources does.
\<close>

definition unconditional_var :: "fixed_point_routine \<Rightarrow> param \<Rightarrow> error + mat option" where
  "unconditional_var solver p = get_uvar solver p"

text \<open>
  The two ways to the value, \<^verbatim>\<open>recursion(*args); return likelihood(self.hvar, self.innov)\<close>
  and the same with the Python functions.
\<close>

definition run_filter ::
    "(cube \<Rightarrow> mat \<Rightarrow> mat \<Rightarrow> mat \<Rightarrow> mat option \<Rightarrow> error + cube) \<Rightarrow> (cube \<Rightarrow> mat \<Rightarrow> error + npfloat) \<Rightarrow>
     bekk \<Rightarrow> cube \<Rightarrow> param \<Rightarrow> (error + npfloat) \<times> bekk" where
  "run_filter run_recursion evaluate self hv p =
     (case run_recursion hv (self_innov self) (amat p) (bmat p) (cmat p) of
        Inl e \<Rightarrow> (Inl e, self\<lparr>self_hvar := Some hv\<rparr>)
      | Inr hv' \<Rightarrow> (evaluate hv' (self_innov self), self\<lparr>self_hvar := Some hv'\<rparr>))"

text \<open>
  \<^verbatim>\<open>BEKK.likelihood(self, theta, target)\<close>; the result is the returned float or the
  exception, and the object after the call:
  \<^verbatim>\<open>
  nstocks = self.innov.shape[1]
  param = BEKKParams(theta=theta, target=target, nstocks=nstocks,
                     restriction=self.param_start.restriction)

  if param.constraint() >= 1 or param.cmat is None:
      return 1e10

  nobs, nstocks = self.innov.shape
  self.hvar = np.zeros((nobs, nstocks, nstocks), dtype=float)
  self.hvar[0] = param.unconditional_var()

  args = [self.hvar, self.innov, param.amat, param.bmat, param.cmat]

  if self.cython:
      recursion(*args)
      return likelihood(self.hvar, self.innov)
  else:
      filter_var_python(*args)
      return likelihood_python(self.hvar, self.innov)
  \<close>
\<close>

definition likelihood :: "externals \<Rightarrow> bekk \<Rightarrow> vec \<Rightarrow> mat option \<Rightarrow> (error + npfloat) \<times> bekk" where
  "likelihood ext self theta target =
     (let nstocks = shape1 (self_innov self)
      in case self_param_start self of
           None \<Rightarrow> (Inl AttributeError, self)
         | Some start \<Rightarrow>
        (case ext_BEKKParams ext theta target nstocks (restriction start) of
           Inl e \<Rightarrow> (Inl e, self)
         | Inr p \<Rightarrow>
        (case constraint (ext_eigvals ext) p of
           Inl e \<Rightarrow> (Inl e, self)
         | Inr score \<Rightarrow>
        if score \<ge> 1 \<or> cmat p = None then (Inr (Float (10 ^ 10)), self)
        else
          (let nobs = shape0 (self_innov self);
               nstocks = shape1 (self_innov self);
               hv = zeros3 nobs nstocks nstocks;
               self1 = self\<lparr>self_hvar := Some hv\<rparr>
           in case unconditional_var (ext_fixed_point ext) p of
                Inl e \<Rightarrow> (Inl e, self1)
              | Inr uvar \<Rightarrow>
             if nobs = 0 then (Inl IndexError, self1)
             else
               (let hv0 = hv[0 := slot_value nstocks uvar]
                in if self_cython self
                   then run_filter (ext_recursion ext) (ext_likelihood ext) self hv0 p
                   else run_filter (ext_filter_var_python ext) (ext_likelihood_python ext)
                          self hv0 p)))))"

section \<open>Likelihood evaluator\<close>

text \<open>
  The object that \<^verbatim>\<open>scipy.sparse.linalg.splu\<close> returns, as far as the program uses
  it: the factor \<open>U\<close>, whose entries may be NaN, and the method \<open>solve\<close>. The routine
  is a parameter, as the other library routines are; it raises RuntimeError for a matrix
  that is exactly singular, so that a returned \<open>U\<close> has no zero on its diagonal.
\<close>

record superlu =
  lu_U :: "npfloat list list"
  lu_solve :: "vec \<Rightarrow> vec"

type_synonym splu_routine = "mat \<Rightarrow> error + superlu"

text \<open>\<^verbatim>\<open>np.diag(M)\<close> of a square array\<close>

definition np_diag :: "'a list list \<Rightarrow> 'a list" where
  "np_diag M = map (\<lambda>i. M ! i ! i) [0..<length M]"

text \<open>\<^verbatim>\<open>xs[~np.isnan(xs)]\<close>\<close>

definition not_nan :: "npfloat list \<Rightarrow> real list" where
  "not_nan xs = List.map_filter (\<lambda>v. case v of Float x \<Rightarrow> Some x | NaN \<Rightarrow> None) xs"

text \<open>
  \<^verbatim>\<open>utils.likelihood(hvar, innov)\<close>, where \<open>hvar\<close> is the buffer of diagonal blocks
  that \<^verbatim>\<open>filter_var\<close> fills:
  \<^verbatim>\<open>
  factor = scs.linalg.splu(hvar)
  diag_factor = np.diag(factor.U.toarray())
  innov = innov.flatten()
  det = np.log(np.abs(diag_factor[~np.isnan(diag_factor)])).sum()
  return det + (factor.solve(innov) * innov).sum()
  \<close>
  \<^verbatim>\<open>np.log(0)\<close> is \<open>-inf\<close>, not the value 0 of \<open>ln 0\<close>; the theorem about the
  value is about factors without zero on the diagonal of \<open>U\<close>.
\<close>

definition utils_likelihood :: "splu_routine \<Rightarrow> mat \<Rightarrow> mat \<Rightarrow> error + real" where
  "utils_likelihood splu hvar innov =
     (case splu hvar of
        Inl e \<Rightarrow> Inl e
      | Inr factor \<Rightarrow>
          (let diag_factor = np_diag (lu_U factor);
               innov = concat innov;
               det = sum_list (map (\<lambda>x. ln \<bar>x\<bar>) (not_nan diag_factor))
           in Inr (det + sum_list (map2 (*) (lu_solve factor innov) innov))))"

section \<open>Exact-arithmetic models of two library routines\<close>

text \<open>
  Two of the library routines are given a model of their own, used to instantiate the
  theorems below at concrete inputs. They follow the algorithms of the libraries in exact
  arithmetic; they are not code of the repository.

  \<^verbatim>\<open>scipy.optimize.fixed_point(func, x0)\<close> with its defaults (\<^verbatim>\<open>xtol=1e-8\<close>,
  \<^verbatim>\<open>maxiter=500\<close>, \<^verbatim>\<open>method='del2'\<close>) is Steffensen's iteration with Aitken's
  acceleration, entry by entry: from \<open>p0\<close>, \<open>p1 = func(p0)\<close> and \<open>p2 = func(p1)\<close> it
  takes \<open>p = p0 - (p1 - p0)\<^sup>2 / d\<close> where \<open>d = p2 - 2 p1 + p0\<close> is not zero and
  \<open>p = p2\<close> elsewhere, returns \<open>p\<close> when every relative change
  \<open>(p - p0) / p0\<close> (or \<open>p\<close> itself where \<open>p0 = 0\<close>) is below \<open>xtol\<close> in absolute
  value, and raises RuntimeError after \<open>maxiter\<close> rounds.
\<close>

definition del2 :: "real \<Rightarrow> real \<Rightarrow> real \<Rightarrow> real" where
  "del2 p0 p1 p2 = (let d = p2 - 2 * p1 + p0 in if d \<noteq> 0 then p0 - (p1 - p0)\<^sup>2 / d else p2)"

definition relerr :: "real \<Rightarrow> real \<Rightarrow> real" where
  "relerr p p0 = (if p0 \<noteq> 0 then (p - p0) / p0 else p)"

definition accelerate :: "mat \<Rightarrow> mat \<Rightarrow> mat \<Rightarrow> mat" where
  "accelerate P0 P1 P2 =
     map (\<lambda>(r0, r1, r2). map (\<lambda>(x0, x1, x2). del2 x0 x1 x2) (zip r0 (zip r1 r2)))
       (zip P0 (zip P1 P2))"

definition converged :: "real \<Rightarrow> mat \<Rightarrow> mat \<Rightarrow> bool" where
  "converged xtol P P0 = list_all (list_all (\<lambda>e. \<bar>e\<bar> < xtol)) (map2 (map2 relerr) P P0)"

fun fixed_point_helper :: "(mat \<Rightarrow> mat) \<Rightarrow> mat \<Rightarrow> real \<Rightarrow> nat \<Rightarrow> error + mat" where
  "fixed_point_helper func p0 xtol 0 = Inl RuntimeError"
| "fixed_point_helper func p0 xtol (Suc maxiter) =
     (let p1 = func p0;
          p2 = func p1;
          p = accelerate p0 p1 p2
      in if converged xtol p p0 then Inr p else fixed_point_helper func p xtol maxiter)"

definition sco_fixed_point :: fixed_point_routine where
  "sco_fixed_point func x0 = fixed_point_helper func x0 (1 / 10 ^ 8) 500"

text \<open>
  \<^verbatim>\<open>scipy.linalg.cholesky(a, lower=True)\<close> raises ValueError unless \<open>a\<close> is square,
  reads the lower triangle of \<open>a\<close> only, and raises LinAlgError when a pivot is not
  positive. The model eliminates one column at a time: for
  \<open>a = [[a11, _], [a21, A22]]\<close> the factor is \<open>[[l11, 0], [l21, L22]]\<close> with
  \<open>l11 = sqrt a11\<close>, \<open>l21 = a21 / l11\<close> and \<open>L22\<close> the factor of
  \<open>A22 - l21 l21'\<close>.
\<close>

definition schur_complement :: "vec \<Rightarrow> mat \<Rightarrow> mat" where
  "schur_complement l21 rs =
     map2 (\<lambda>row li. map2 (\<lambda>d lj. d - li * lj) (tl row) l21) rs l21"

function cholesky_lower :: "mat \<Rightarrow> error + mat" where
  "cholesky_lower [] = Inr []"
| "cholesky_lower (r # rs) =
     (let a11 = hd r
      in if a11 \<le> 0 then Inl LinAlgError
         else (let l11 = sqrt a11;
                   l21 = map (\<lambda>row. hd row / l11) rs
               in case cholesky_lower (schur_complement l21 rs) of
                    Inl e \<Rightarrow> Inl e
                  | Inr L22 \<Rightarrow> Inr ((l11 # replicate (length rs) 0) # map2 (#) l21 L22)))"
  by pat_completeness auto
termination
  by (relation "measure length") (simp_all add: schur_complement_def)

definition sl_cholesky :: cholesky_routine where
  "sl_cholesky a lower =
     (if \<not> has_shape (length a) (length a) a then Inl ValueError
      else if lower then cholesky_lower a
      else map_sum id mT (cholesky_lower (mT a)))"

text \<open>How far two matrices of the same shape are apart, entry by entry.\<close>

definition close_to :: "real \<Rightarrow> mat \<Rightarrow> mat \<Rightarrow> bool" where
  "close_to tol M N = list_all2 (list_all2 (\<lambda>x y. \<bar>x - y\<bar> \<le> tol)) M N"

section \<open>Collaborators for one stock\<close>

text \<open>
  The theorems about the objective function hold for all collaborators. To instantiate
  them, the collaborators are given for a single stock.

  Modelled from the spec: the constructor of \<^verbatim>\<open>BEKKParams\<close>, which is not among the
  sources, for one stock. Section 3: \<open>theta\<close> encodes \<open>A\<close>, \<open>B\<close> and \<open>C\<close>, but with
  variance targeting ``C is derived, not estimated directly, from a fixed target
  covariance and A, B''.
\<close>

definition bekkparams_one_stock ::
    "cholesky_routine \<Rightarrow> vec \<Rightarrow> mat option \<Rightarrow> nat \<Rightarrow> string \<Rightarrow> error + param" where
  "bekkparams_one_stock cholesky theta target nstocks restr =
     (let a = [[theta ! 0]]; b = [[theta ! 1]]
      in case target of
           None \<Rightarrow> Inr \<lparr>amat = a, bmat = b, cmat = Some [[theta ! 2]]\<rparr>
         | Some t \<Rightarrow>
             (case find_cmat cholesky a b t of
                Inl e \<Rightarrow> Inl e
              | Inr c \<Rightarrow> Inr \<lparr>amat = a, bmat = b, cmat = c\<rparr>))"

text \<open>The only eigenvalue of a \<open>1 \<times> 1\<close> matrix is its entry.\<close>

definition eigvals_one_stock :: eigvals_routine where
  "eigvals_one_stock M = Inr [complex_of_real (M ! 0 ! 0)]"

text \<open>
  Modelled from the spec: the covariance recursion (section 4.3) and the likelihood
  evaluator (section 4.4), which \<^verbatim>\<open>BEKK.likelihood\<close> imports from modules that are not
  among the sources, for one observation of one stock. The recursion has no step to take
  there, and the value is \<open>log |H| + u H\<^sup>-\<^sup>1 u\<close>. Section 4.4: ``if
  factorization fails for any t (H_t not positive definite), the whole likelihood
  evaluation must signal failure upward''; so for an \<open>H\<close> that is not positive or is
  NaN the evaluator raises RuntimeError, as \<^verbatim>\<open>splu\<close> in \<^verbatim>\<open>utils.likelihood\<close> does
  for a singular or NaN matrix.
\<close>

definition recursion_one_obs :: "cube \<Rightarrow> mat \<Rightarrow> mat \<Rightarrow> mat \<Rightarrow> mat option \<Rightarrow> error + cube" where
  "recursion_one_obs hv innov a b c = Inr hv"

definition likelihood_one_obs :: "cube \<Rightarrow> mat \<Rightarrow> error + npfloat" where
  "likelihood_one_obs hv innov =
     (case (hv, innov) of
        ([[[Float h]]], [[u]]) \<Rightarrow>
          if 0 < h then Inr (Float (ln \<bar>h\<bar> + u * (u / h))) else Inl RuntimeError
      | _ \<Rightarrow> Inl RuntimeError)"

definition externals_one_stock :: "fixed_point_routine \<Rightarrow> externals" where
  "externals_one_stock solver =
     \<lparr>ext_BEKKParams = bekkparams_one_stock sl_cholesky,
      ext_eigvals = eigvals_one_stock,
      ext_fixed_point = solver,
      ext_recursion = recursion_one_obs,
      ext_likelihood = likelihood_one_obs,
      ext_filter_var_python = recursion_one_obs,
      ext_likelihood_python = likelihood_one_obs\<rparr>"

text \<open>
  The factorisation of a diagonal matrix, to instantiate the theorem about the likelihood
  evaluator: \<open>U\<close> is the matrix itself and \<open>solve\<close> divides by the diagonal; a zero
  on the diagonal raises RuntimeError, as \<^verbatim>\<open>splu\<close> does for a singular matrix.
\<close>

definition splu_diagonal :: splu_routine where
  "splu_diagonal A =
     (if 0 \<in> set (np_diag A) then Inl RuntimeError
      else Inr \<lparr>lu_U = map (map Float) A,
                lu_solve = (\<lambda>b. map (\<lambda>i. b ! i / A ! i ! i) [0..<length A])\<rparr>)"

section \<open>Positive definite matrices, triangular matrices, eigenvalues\<close>

text \<open>The notions of linear algebra that the claims are stated with.\<close>

definition mv :: "mat \<Rightarrow> vec \<Rightarrow> vec" where
  "mv M x = map (\<lambda>r. vdot r x) M"

definition quad :: "mat \<Rightarrow> vec \<Rightarrow> real" where
  "quad M x = vdot x (mv M x)"

definition symmetric :: "mat \<Rightarrow> bool" where
  "symmetric M = (\<forall>i<length M. \<forall>j<length M. M ! i ! j = M ! j ! i)"

definition pos_def :: "mat \<Rightarrow> bool" where
  "pos_def M =
     (has_shape (length M) (length M) M \<and> symmetric M \<and>
      (\<forall>x. length x = length M \<and> x \<noteq> replicate (length M) 0 \<longrightarrow> 0 < quad M x))"

definition lower_triangular :: "mat \<Rightarrow> bool" where
  "lower_triangular L = (\<forall>i<length L. \<forall>j<length (L ! i). i < j \<longrightarrow> L ! i ! j = 0)"

text \<open>
  A complex number \<open>lam\<close> is an eigenvalue of a real square matrix when some complex
  vector other than zero is mapped to its \<open>lam\<close>-fold. The spectral radius is the
  largest absolute value of an eigenvalue.
\<close>

definition cmv :: "mat \<Rightarrow> complex list \<Rightarrow> complex list" where
  "cmv M v = map (\<lambda>r. sum_list (map2 (\<lambda>x z. complex_of_real x * z) r v)) M"

definition is_eigenvalue :: "mat \<Rightarrow> complex \<Rightarrow> bool" where
  "is_eigenvalue M lam =
     (\<exists>v. length v = length M \<and> v \<noteq> replicate (length M) 0 \<and> cmv M v = map (\<lambda>z. lam * z) v)"

definition spectrum :: "mat \<Rightarrow> complex set" where
  "spectrum M = {lam. is_eigenvalue M lam}"

definition spectral_radius :: "mat \<Rightarrow> real" where
  "spectral_radius M = Max (cmod ` spectrum M)"

text \<open>
  The matrix \<open>A \<otimes> A + B \<otimes> B\<close> of the stationarity constraint, and stationarity as
  the specification words it: every eigenvalue of this matrix is smaller than 1 in
  absolute value.
\<close>

definition kron_sum :: "mat \<Rightarrow> mat \<Rightarrow> mat" where
  "kron_sum a b = madd (kron a a) (kron b b)"

definition stationary :: "mat \<Rightarrow> mat \<Rightarrow> bool" where
  "stationary a b = (\<forall>lam \<in> spectrum (kron_sum a b). cmod lam < 1)"

text \<open>
  The determinant, by expansion along the first row, and the block diagonal matrix of
  a list of square matrices.
\<close>

definition drop_col :: "nat \<Rightarrow> 'a list \<Rightarrow> 'a list" where
  "drop_col j r = take j r @ drop (Suc j) r"

function det :: "mat \<Rightarrow> real" where
  "det [] = 1"
| "det (r # rs) =
     sum_list (map (\<lambda>j. (- 1) ^ j * r ! j * det (map (drop_col j) rs)) [0..<length r])"
  by pat_completeness auto
termination
  by (relation "measure length") simp_all

definition block_sum :: "mat \<Rightarrow> mat \<Rightarrow> mat" where
  "block_sum H M =
     map (\<lambda>r. r @ replicate (length M) 0) H @ map (\<lambda>r. replicate (length H) 0 @ r) M"

definition block_diag :: "mat list \<Rightarrow> mat" where
  "block_diag Hs = foldr block_sum Hs []"

text \<open>
  \<open>Hi\<close> is the inverse of the \<open>n \<times> n\<close> matrix \<open>H\<close>; and the sum over \<open>t\<close> of
  \<open>log |det H\<^sub>t| + u\<^sub>t' H\<^sub>t\<^sup>-\<^sup>1 u\<^sub>t\<close>.
\<close>

definition is_inverse :: "nat \<Rightarrow> mat \<Rightarrow> mat \<Rightarrow> bool" where
  "is_inverse n Hi H = (\<forall>x. length x = n \<longrightarrow> mv Hi (mv H x) = x)"

definition gaussian_terms :: "mat list \<Rightarrow> mat list \<Rightarrow> mat \<Rightarrow> real" where
  "gaussian_terms Hs His us =
     sum_list (map (\<lambda>(H, Hi, u). ln \<bar>det H\<bar> + vdot u (mv Hi u)) (zip Hs (zip His us)))"

text \<open>
  What the program relies on from \<^verbatim>\<open>splu\<close> for the matrix \<open>A\<close> and the right-hand
  side \<open>b\<close>: the diagonal of \<open>U\<close> has no NaN and its product is the determinant of
  \<open>A\<close> up to sign, and \<open>solve\<close> solves \<open>A x = b\<close>.
\<close>

definition splu_contract :: "superlu \<Rightarrow> mat \<Rightarrow> vec \<Rightarrow> bool" where
  "splu_contract factor A b =
     (NaN \<notin> set (np_diag (lu_U factor)) \<and>
      \<bar>prod_list (not_nan (np_diag (lu_U factor)))\<bar> = \<bar>det A\<bar> \<and>
      length (lu_solve factor b) = length A \<and>
      mv A (lu_solve factor b) = b)"

text \<open>
  What the program relies on from \<^verbatim>\<open>scipy.linalg.cholesky\<close>: a positive definite
  matrix has a lower triangular factor, and the routine returns it.
\<close>

definition cholesky_contract :: "cholesky_routine \<Rightarrow> bool" where
  "cholesky_contract cholesky =
     (\<forall>M. pos_def M \<longrightarrow>
        (\<exists>L. cholesky M True = Inr L \<and> has_shape (length M) (length M) L \<and>
           lower_triangular L \<and> dot L (mT L) = M))"

section \<open>Evaluation of closed terms\<close>

lemmas array_defs =
  shape0_def shape1_def column_def mT_def vdot_def dot_def madd_def msub_def smul_def
  sdiv_def eye_def

section \<open>Blocks of the covariance buffer\<close>

lemma length_set_block: "length (set_block H lo hi M) = length H"
  by (simp add: set_block_def)

lemma length_set_block_row:
  "r < length H \<Longrightarrow> length (set_block H lo hi M ! r) = length (H ! r)"
  by (simp add: set_block_def)

lemma set_block_row_outside:
  "r < length H \<Longrightarrow> \<not> (lo \<le> r \<and> r < hi) \<Longrightarrow> set_block H lo hi M ! r = H ! r"
  by (auto simp: set_block_def)

lemma set_block_entry:
  "r < length H \<Longrightarrow> c < length (H ! r) \<Longrightarrow>
   set_block H lo hi M ! r ! c =
     (if lo \<le> r \<and> r < hi \<and> lo \<le> c \<and> c < hi then M ! (r - lo) ! (c - lo) else H ! r ! c)"
  by (simp add: set_block_def)

lemma get_block_frame:
  assumes "hi' \<le> lo \<or> hi \<le> lo'"
  shows "get_block (set_block H lo hi M) lo' hi' = get_block H lo' hi'"
proof -
  have "take (hi' - lo') (drop lo' (set_block H lo hi M)) = take (hi' - lo') (drop lo' H)"
  proof (rule nth_equalityI)
    show "length (take (hi' - lo') (drop lo' (set_block H lo hi M))) = length (take (hi' - lo') (drop lo' H))"
      by (simp add: length_set_block)
  next
    fix i assume "i < length (take (hi' - lo') (drop lo' (set_block H lo hi M)))"
    then have i: "i < hi' - lo'" "lo' + i < length H"
      by (auto simp: length_set_block)
    with assms have "\<not> (lo \<le> lo' + i \<and> lo' + i < hi)" by auto
    with i show "take (hi' - lo') (drop lo' (set_block H lo hi M)) ! i = take (hi' - lo') (drop lo' H) ! i"
      by (simp add: length_set_block set_block_row_outside)
  qed
  then show ?thesis by (simp add: get_block_def)
qed

lemma get_block_set_block:
  assumes "lo \<le> hi" "hi \<le> length H" "\<forall>r. lo \<le> r \<and> r < hi \<longrightarrow> hi \<le> length (H ! r)"
    and "has_shape (hi - lo) (hi - lo) M"
  shows "get_block (set_block H lo hi M) lo hi = M"
proof (rule nth_equalityI)
  show len: "length (get_block (set_block H lo hi M) lo hi) = length M"
    using assms by (simp add: get_block_def length_set_block has_shape_def)
  fix i assume "i < length (get_block (set_block H lo hi M) lo hi)"
  with len assms have i: "i < hi - lo" "lo + i < length H" "i < length M"
    by (auto simp: has_shape_def)
  from assms i have lenMi: "length (M ! i) = hi - lo"
    by (simp add: has_shape_def list_all_length)
  have rowlen: "hi \<le> length (H ! (lo + i))" using assms i by auto
  have "take (hi - lo) (drop lo (set_block H lo hi M ! (lo + i))) = M ! i"
  proof (rule nth_equalityI)
    show "length (take (hi - lo) (drop lo (set_block H lo hi M ! (lo + i)))) = length (M ! i)"
      using i rowlen lenMi by (simp add: length_set_block_row)
    fix j assume "j < length (take (hi - lo) (drop lo (set_block H lo hi M ! (lo + i))))"
    then have j: "j < hi - lo" by simp
    with rowlen have "lo + j < length (H ! (lo + i))" by simp
    moreover have "lo + i < hi" "lo + j < hi" using i j by auto
    ultimately show "take (hi - lo) (drop lo (set_block H lo hi M ! (lo + i))) ! j = M ! i ! j"
      using i j by (simp add: length_set_block_row set_block_entry)
  qed
  moreover have "lo \<le> length (set_block H lo hi M)"
    using i by (simp add: length_set_block)
  ultimately show "get_block (set_block H lo hi M) lo hi ! i = M ! i"
    using i by (simp add: get_block_def length_set_block)
qed


lemma has_shape_set_block:
  "has_shape n m H \<Longrightarrow> has_shape n m (set_block H lo hi M)"
  by (simp add: has_shape_def list_all_length length_set_block length_set_block_row)

lemma has_shape_dot: "has_shape (length A) (shape1 B) (dot A B)"
  by (simp add: has_shape_def dot_def list_all_length)

lemma shape1_mT_square: "has_shape n n A \<Longrightarrow> shape1 (mT A) = n"
  by (cases A) (auto simp: has_shape_def shape1_def mT_def column_def upt_conv_Cons)

lemma has_shape_madd:
  "has_shape n m A \<Longrightarrow> has_shape n m B \<Longrightarrow> has_shape n m (madd A B)"
  by (simp add: has_shape_def madd_def list_all_length)

lemma has_shape_sandwich:
  assumes "has_shape n n A"
  shows "has_shape n n (dot (dot A X) (mT A))"
proof -
  have "length (dot A X) = n" using assms by (simp add: dot_def has_shape_def)
  with has_shape_dot [of "dot A X" "mT A"] shape1_mT_square [OF assms]
  show ?thesis by simp
qed

lemma has_shape_step_value:
  assumes "has_shape n n c_mat" "has_shape n n a_mat" "has_shape n n b_mat"
  shows "has_shape n n
     (madd (madd (dot c_mat (mT c_mat)) (dot (dot a_mat X) (mT a_mat)))
        (dot (dot b_mat Y) (mT b_mat)))"
proof -
  have "has_shape n n (dot c_mat (mT c_mat))"
    using has_shape_dot [of c_mat "mT c_mat"] shape1_mT_square [OF assms(1)] assms(1)
    by (simp add: has_shape_def)
  then show ?thesis
    using assms by (intro has_shape_madd has_shape_sandwich)
qed

lemma has_shape_filter_step:
  "has_shape N K H \<Longrightarrow> has_shape N K (filter_step n cc a b i2 H i)"
  by (simp add: filter_step_def has_shape_set_block)

lemma has_shape_foldl_filter_step:
  "has_shape N K H \<Longrightarrow> has_shape N K (foldl (filter_step n cc a b i2) H is)"
  by (induction "is" arbitrary: H) (simp_all add: has_shape_filter_step)

lemma filter_step_frame:
  "hi' \<le> i * n \<or> (i + 1) * n \<le> lo' \<Longrightarrow>
   get_block (filter_step n cc a b i2 H i) lo' hi' = get_block H lo' hi'"
  unfolding filter_step_def by (rule get_block_frame)

lemma foldl_filter_step_frame:
  "\<forall>i \<in> set is. hi' \<le> i * n \<or> (i + 1) * n \<le> lo' \<Longrightarrow>
   get_block (foldl (filter_step n cc a b i2) H is) lo' hi' = get_block H lo' hi'"
  by (induction "is" arbitrary: H) (simp_all add: filter_step_frame)

lemma filter_step_written:
  assumes H: "has_shape N N H" and i: "(i + 1) * n \<le> N"
    and M: "has_shape n n
      (madd (madd cc (dot (dot a (i2 ! (i - 1))) (mT a)))
         (dot (dot b (get_block H ((i - 1) * n) (i * n))) (mT b)))"
  shows "get_block (filter_step n cc a b i2 H i) (i * n) ((i + 1) * n) =
     madd (madd cc (dot (dot a (i2 ! (i - 1))) (mT a)))
       (dot (dot b (get_block H ((i - 1) * n) (i * n))) (mT b))"
  unfolding filter_step_def
proof (rule get_block_set_block)
  show "i * n \<le> (i + 1) * n" by simp
  show "(i + 1) * n \<le> length H" using H i by (simp add: has_shape_def)
  show "\<forall>r. i * n \<le> r \<and> r < (i + 1) * n \<longrightarrow> (i + 1) * n \<le> length (H ! r)"
    using H i by (auto simp: has_shape_def list_all_length)
  show "has_shape ((i + 1) * n - i * n) ((i + 1) * n - i * n)
     (madd (madd cc (dot (dot a (i2 ! (i - 1))) (mT a)))
        (dot (dot b (get_block H ((i - 1) * n) (i * n))) (mT b)))"
    using M by simp
qed

lemma innov_squares_nth:
  "t < length innov \<Longrightarrow> innov_squares innov ! t = outer (innov ! t)"
  by (simp add: innov_squares_def outer_def mult.commute)

lemma upt_split3: "1 \<le> t \<Longrightarrow> t < T \<Longrightarrow> [1..<T] = [1..<t] @ t # [Suc t..<T]"
  by (metis Suc_leI le_add_diff_inverse less_imp_le_nat upt_add_eq_append upt_conv_Cons)

lemma filter_var_block0:
  "get_block (filter_var hvar innov c_mat a_mat b_mat) 0 (shape1 innov) =
   get_block hvar 0 (shape1 innov)"
  unfolding filter_var_def Let_def
  by (rule foldl_filter_step_frame) auto

lemma filter_var_recursion:
  assumes A: "has_shape n n a_mat" and B: "has_shape n n b_mat" and C: "has_shape n n c_mat"
    and U: "has_shape T n innov" and H: "has_shape (T * n) (T * n) hvar"
    and t: "1 \<le> t" "t < T"
  shows "get_block (filter_var hvar innov c_mat a_mat b_mat) (t * n) ((t + 1) * n) =
     madd (madd (dot c_mat (mT c_mat)) (dot (dot a_mat (outer (innov ! (t - 1)))) (mT a_mat)))
       (dot (dot b_mat (get_block (filter_var hvar innov c_mat a_mat b_mat) ((t - 1) * n) (t * n)))
          (mT b_mat))"
proof -
  define cc where "cc = dot c_mat (mT c_mat)"
  define i2 where "i2 = innov_squares innov"
  define step where "step = filter_step n cc a_mat b_mat i2"
  define H1 where "H1 = foldl step hvar [1..<t]"
  define R where "R = filter_var hvar innov c_mat a_mat b_mat"
  have n: "shape1 innov = n"
    using U t by (cases innov) (auto simp: has_shape_def shape1_def)
  have T: "shape0 innov = T" using U by (simp add: has_shape_def shape0_def)
  have R: "R = foldl step (step H1 t) [Suc t..<T]"
    unfolding R_def filter_var_def Let_def n T
    by (subst upt_split3 [OF t]) (simp add: step_def cc_def i2_def H1_def)
  have H1: "has_shape (T * n) (T * n) H1"
    unfolding H1_def step_def by (rule has_shape_foldl_filter_step [OF H])
  have le: "(t + 1) * n \<le> T * n"
    using t by (intro mult_le_mono1) simp
  have prev: "(t - 1 + 1) * n = t * n" using t by simp
  have later: "(t + 1) * n \<le> i * n" if "i \<in> set [Suc t..<T]" for i
    using that by (intro mult_le_mono1) simp
  have later': "t * n \<le> i * n" if "i \<in> set [Suc t..<T]" for i
    using that by (intro mult_le_mono1) simp
  have cur: "get_block R (t * n) ((t + 1) * n) = get_block (step H1 t) (t * n) ((t + 1) * n)"
    unfolding R step_def
    by (rule foldl_filter_step_frame) (use later in blast)
  have old: "get_block R ((t - 1) * n) (t * n) = get_block H1 ((t - 1) * n) (t * n)"
  proof -
    have "get_block R ((t - 1) * n) (t * n) = get_block (step H1 t) ((t - 1) * n) (t * n)"
      unfolding R step_def
      by (rule foldl_filter_step_frame) (use later' in blast)
    also have "\<dots> = get_block H1 ((t - 1) * n) (t * n)"
      unfolding step_def by (rule filter_step_frame) simp
    finally show ?thesis .
  qed
  have "get_block (step H1 t) (t * n) ((t + 1) * n) =
     madd (madd cc (dot (dot a_mat (i2 ! (t - 1))) (mT a_mat)))
       (dot (dot b_mat (get_block H1 ((t - 1) * n) (t * n))) (mT b_mat))"
    unfolding step_def
    by (rule filter_step_written [OF H1 le]) (simp add: cc_def has_shape_step_value [OF C A B])
  moreover have "i2 ! (t - 1) = outer (innov ! (t - 1))"
    unfolding i2_def using t U by (intro innov_squares_nth) (simp add: has_shape_def)
  ultimately show ?thesis
    using cur old by (simp add: R_def cc_def)
qed

section \<open>Entries of matrix expressions\<close>

lemma mat_eqI:
  assumes "has_shape n m A" "has_shape n m B"
    and "\<And>i j. i < n \<Longrightarrow> j < m \<Longrightarrow> A ! i ! j = B ! i ! j"
  shows "A = B"
proof (rule nth_equalityI)
  show "length A = length B" using assms by (simp add: has_shape_def)
  fix i assume "i < length A"
  then have i: "i < n" using assms by (simp add: has_shape_def)
  then have len: "length (A ! i) = m" "length (B ! i) = m"
    using assms by (simp_all add: has_shape_def list_all_length)
  show "A ! i = B ! i"
    by (rule nth_equalityI) (use len i assms(3) in auto)
qed

lemma has_shape_nth:
  "has_shape n m A \<Longrightarrow> i < n \<Longrightarrow> length (A ! i) = m"
  by (simp add: has_shape_def list_all_length)

lemma has_shape_length: "has_shape n m A \<Longrightarrow> length A = n"
  by (simp add: has_shape_def)

lemma has_shape_msub:
  "has_shape n m A \<Longrightarrow> has_shape n m B \<Longrightarrow> has_shape n m (msub A B)"
  by (simp add: has_shape_def msub_def list_all_length)

lemma has_shape_smul: "has_shape n m A \<Longrightarrow> has_shape n m (smul k A)"
  by (simp add: has_shape_def smul_def list_all_length)

lemma nth_madd:
  "has_shape n m A \<Longrightarrow> has_shape n m B \<Longrightarrow> i < n \<Longrightarrow> j < m \<Longrightarrow>
   madd A B ! i ! j = A ! i ! j + B ! i ! j"
  by (simp add: madd_def has_shape_def list_all_length)

lemma nth_msub:
  "has_shape n m A \<Longrightarrow> has_shape n m B \<Longrightarrow> i < n \<Longrightarrow> j < m \<Longrightarrow>
   msub A B ! i ! j = A ! i ! j - B ! i ! j"
  by (simp add: msub_def has_shape_def list_all_length)

lemma nth_smul:
  "has_shape n m A \<Longrightarrow> i < n \<Longrightarrow> j < m \<Longrightarrow> smul k A ! i ! j = k * A ! i ! j"
  by (simp add: smul_def has_shape_def list_all_length)

lemma close_to_iff:
  assumes "has_shape n m A" "has_shape n m B"
  shows "close_to tol A B = (\<forall>i<n. \<forall>j<m. \<bar>A ! i ! j - B ! i ! j\<bar> \<le> tol)"
  using assms by (auto simp: close_to_def has_shape_def list_all2_conv_all_nth list_all_length)


lemma has_shape_dot_transpose:
  assumes "has_shape n n c"
  shows "has_shape n n (dot c (mT c))"
  using has_shape_dot [of c "mT c"] shape1_mT_square [OF assms] assms
  by (simp add: has_shape_def)

lemma fixed_point_entry:
  assumes "has_shape n n a" "has_shape n n b" "has_shape n n cc" "has_shape n n H"
    and "i < n" "j < n"
  shows "fixed_point H a b cc ! i ! j =
    2 * H ! i ! j - cc ! i ! j - dot (dot a H) (mT a) ! i ! j - dot (dot b H) (mT b) ! i ! j"
proof -
  have X: "has_shape n n (dot (dot a H) (mT a))" and Y: "has_shape n n (dot (dot b H) (mT b))"
    using assms by (simp_all add: has_shape_sandwich)
  have 1: "has_shape n n (smul 2 H)" using assms by (simp add: has_shape_smul)
  have 2: "has_shape n n (msub (smul 2 H) cc)" using 1 assms by (simp add: has_shape_msub)
  have 3: "has_shape n n (msub (msub (smul 2 H) cc) (dot (dot a H) (mT a)))"
    using 2 X by (simp add: has_shape_msub)
  show ?thesis
    unfolding fixed_point_def
    by (simp add: nth_msub [OF 3 Y assms(5,6)] nth_msub [OF 2 X assms(5,6)]
        nth_msub [OF 1 assms(3,5,6)] nth_smul [OF assms(4,5,6)])
qed

lemma bekk_recursion_entry:
  assumes "has_shape n n a" "has_shape n n b" "has_shape n n cc"
    and "i < n" "j < n"
  shows "bekk_recursion a b cc H1 H2 ! i ! j =
    cc ! i ! j + dot (dot a H1) (mT a) ! i ! j + dot (dot b H2) (mT b) ! i ! j"
proof -
  have X: "has_shape n n (dot (dot a H1) (mT a))" and Y: "has_shape n n (dot (dot b H2) (mT b))"
    using assms by (simp_all add: has_shape_sandwich)
  have 1: "has_shape n n (madd cc (dot (dot a H1) (mT a)))"
    using assms X by (simp add: has_shape_madd)
  show ?thesis
    unfolding bekk_recursion_def
    by (simp add: nth_madd [OF 1 Y assms(4,5)] nth_madd [OF assms(3) X assms(4,5)])
qed

lemma has_shape_fixed_point:
  assumes "has_shape n n a" "has_shape n n b" "has_shape n n cc" "has_shape n n H"
  shows "has_shape n n (fixed_point H a b cc)"
  unfolding fixed_point_def
  using assms by (intro has_shape_msub has_shape_smul has_shape_sandwich)

lemma has_shape_bekk_recursion:
  assumes "has_shape n n a" "has_shape n n b" "has_shape n n cc"
  shows "has_shape n n (bekk_recursion a b cc H1 H2)"
  unfolding bekk_recursion_def
  using assms by (intro has_shape_madd has_shape_sandwich)

lemma fixed_point_eq_iff:
  assumes "has_shape n n a" "has_shape n n b" "has_shape n n cc" "has_shape n n H"
  shows "(fixed_point H a b cc = H) = (H = bekk_recursion a b cc H H)"
proof
  assume eq: "fixed_point H a b cc = H"
  show "H = bekk_recursion a b cc H H"
  proof (rule mat_eqI [OF assms(4) has_shape_bekk_recursion [OF assms(1-3)]])
    fix i j assume ij: "i < n" "j < n"
    from fixed_point_entry [OF assms ij] eq
    show "H ! i ! j = bekk_recursion a b cc H H ! i ! j"
      by (simp add: bekk_recursion_entry [OF assms(1-3) ij])
  qed
next
  assume eq: "H = bekk_recursion a b cc H H"
  show "fixed_point H a b cc = H"
  proof (rule mat_eqI [OF has_shape_fixed_point [OF assms] assms(4)])
    fix i j assume ij: "i < n" "j < n"
    from bekk_recursion_entry [OF assms(1-3) ij, of H H] eq
    have "H ! i ! j = cc ! i ! j + dot (dot a H) (mT a) ! i ! j + dot (dot b H) (mT b) ! i ! j"
      by simp
    then show "fixed_point H a b cc ! i ! j = H ! i ! j"
      by (simp add: fixed_point_entry [OF assms ij])
  qed
qed

lemma fixed_point_residual:
  assumes "has_shape n n a" "has_shape n n b" "has_shape n n cc" "has_shape n n H"
  shows "close_to tol (fixed_point H a b cc) H = close_to tol H (bekk_recursion a b cc H H)"
proof -
  have "\<bar>fixed_point H a b cc ! i ! j - H ! i ! j\<bar> =
        \<bar>H ! i ! j - bekk_recursion a b cc H H ! i ! j\<bar>" if "i < n" "j < n" for i j
    by (simp add: fixed_point_entry [OF assms that] bekk_recursion_entry [OF assms(1-3) that])
  then show ?thesis
    by (simp add: close_to_iff [OF has_shape_fixed_point [OF assms] assms(4)]
        close_to_iff [OF assms(4) has_shape_bekk_recursion [OF assms(1-3)]])
qed

section \<open>Runs of the fixed-point routine\<close>

text \<open>
  What the routine returns is an accelerated iterate that passed the test of convergence,
  and an iterate that a round leaves unchanged is a fixed point of the function.
\<close>

lemma has_shape_eye: "has_shape n n (eye n)"
  by (simp add: has_shape_def eye_def list_all_length)

lemma has_shape_accelerate:
  "has_shape n m P0 \<Longrightarrow> has_shape n m P1 \<Longrightarrow> has_shape n m P2 \<Longrightarrow>
   has_shape n m (accelerate P0 P1 P2)"
  by (simp add: has_shape_def accelerate_def list_all_length)

lemma accelerate_entry:
  "has_shape n m P0 \<Longrightarrow> has_shape n m P1 \<Longrightarrow> has_shape n m P2 \<Longrightarrow> i < n \<Longrightarrow> j < m \<Longrightarrow>
   accelerate P0 P1 P2 ! i ! j = del2 (P0 ! i ! j) (P1 ! i ! j) (P2 ! i ! j)"
  by (simp add: has_shape_def accelerate_def list_all_length)

lemma del2_unchanged: "del2 p0 p1 p2 = p0 \<Longrightarrow> p1 = p0"
  by (auto simp: del2_def Let_def split: if_splits)

lemma accelerate_unchanged:
  assumes "has_shape n m P0" "has_shape n m P1" "has_shape n m P2"
    and "accelerate P0 P1 P2 = P0"
  shows "P1 = P0"
proof (rule mat_eqI [OF assms(2) assms(1)])
  fix i j assume ij: "i < n" "j < m"
  have "del2 (P0 ! i ! j) (P1 ! i ! j) (P2 ! i ! j) = P0 ! i ! j"
    using accelerate_entry [OF assms(1-3) ij] assms(4) by simp
  then show "P1 ! i ! j = P0 ! i ! j" by (rule del2_unchanged)
qed

lemma fixed_point_helper_returns:
  assumes "\<And>u. has_shape n n u \<Longrightarrow> has_shape n n (func u)"
  shows "has_shape n n p0 \<Longrightarrow> fixed_point_helper func p0 xtol k = Inr p \<Longrightarrow>
     \<exists>q. has_shape n n q \<and> p = accelerate q (func q) (func (func q)) \<and> converged xtol p q"
proof (induction k arbitrary: p0)
  case 0
  then show ?case by simp
next
  case (Suc k)
  let ?p = "accelerate p0 (func p0) (func (func p0))"
  have sh: "has_shape n n ?p"
    using Suc.prems(1) by (intro has_shape_accelerate assms)
  show ?case
  proof (cases "converged xtol ?p p0")
    case True
    with Suc.prems have "p = ?p" by (simp add: Let_def)
    with True Suc.prems(1) show ?thesis by blast
  next
    case False
    with Suc.prems have "fixed_point_helper func ?p xtol k = Inr p" by (simp add: Let_def)
    with sh show ?thesis by (rule Suc.IH)
  qed
qed

text \<open>Two runs for one stock: one that converges and one that does not.\<close>

lemma fixed_point_unit_root: "fixed_point [[x]] [[1]] [[0]] [[1]] = [[x - 1]]"
  by (simp add: fixed_point_def array_defs)

lemma accelerate_arithmetic: "accelerate [[x]] [[x - 1]] [[x - 2]] = [[x - 2]]"
  by (simp add: accelerate_def del2_def)

lemma not_converged_small:
  assumes "x = 1 \<or> x \<le> - 1" "- x \<le> 1001"
  shows "\<not> converged (1 / 10 ^ 8) [[x - 2]] [[x]]"
proof -
  have x: "x \<noteq> 0" "\<bar>x\<bar> \<le> 1001" using assms by auto
  then have "1 / 10 ^ 8 * \<bar>x\<bar> \<le> 2" by simp
  then have "1 / 10 ^ 8 \<le> 2 / \<bar>x\<bar>" using x by (simp add: field_simps)
  then show ?thesis using x by (simp add: converged_def relerr_def)
qed

lemma fixed_point_helper_unit_root:
  "x = 1 \<or> x \<le> - 1 \<Longrightarrow> - x + 2 * real k \<le> 1001 \<Longrightarrow>
   fixed_point_helper (\<lambda>u. fixed_point u [[1]] [[0]] [[1]]) [[x]] (1 / 10 ^ 8) k =
     Inl RuntimeError"
proof (induction k arbitrary: x)
  case 0
  show ?case by simp
next
  case (Suc k)
  have nc: "\<not> converged (1 / 10 ^ 8) [[x - 2]] [[x]]"
    using Suc.prems by (intro not_converged_small) auto
  have "fixed_point_helper (\<lambda>u. fixed_point u [[1]] [[0]] [[1]]) [[x - 2]] (1 / 10 ^ 8) k =
     Inl RuntimeError"
    using Suc.prems by (intro Suc.IH) auto
  with nc show ?case
    by (simp add: fixed_point_unit_root accelerate_arithmetic Let_def)
qed

lemma sco_fixed_point_unit_root:
  "sco_fixed_point (\<lambda>u. fixed_point u [[1]] [[0]] [[1]]) [[1]] = Inl RuntimeError"
  unfolding sco_fixed_point_def by (rule fixed_point_helper_unit_root) simp_all

lemma sco_fixed_point_half:
  "sco_fixed_point (\<lambda>u. fixed_point u [[1 / 2]] [[1 / 2]] [[1]]) [[1]] = Inr [[2]]"
proof -
  let ?F = "\<lambda>u. fixed_point u [[1 / 2]] [[1 / 2]] [[1]]"
  have f: "?F [[x]] = [[3 / 2 * x - 1]]" for x
    by (simp add: fixed_point_def array_defs)
  have a1: "accelerate [[1]] (?F [[1]]) (?F (?F [[1]])) = [[2]]"
    by (simp add: f accelerate_def del2_def power2_eq_square)
  have c1: "\<not> converged (1 / 10 ^ 8) [[2]] [[1]]"
    by (simp add: converged_def relerr_def)
  have a2: "accelerate [[2]] (?F [[2]]) (?F (?F [[2]])) = [[2]]"
    by (simp add: f accelerate_def del2_def)
  have c2: "converged (1 / 10 ^ 8) [[2]] [[2]]"
    by (simp add: converged_def relerr_def)
  have "fixed_point_helper ?F [[1]] (1 / 10 ^ 8) (Suc (Suc 498)) = Inr [[2]]"
    unfolding fixed_point_helper.simps Let_def a1 a2 using c1 c2 by simp
  moreover have "(500::nat) = Suc (Suc 498)" by simp
  ultimately show ?thesis unfolding sco_fixed_point_def by metis
qed

text \<open>
  A run for two stocks with \<open>A = [[0, 4/5], [1/10000, 0]]\<close>, \<open>B = 0\<close> and
  \<open>CC' = [[9/25, 0], [0, 10\<^sup>6]]\<close>. The iterates stay diagonal, and the third round
  passes the test of convergence.
\<close>

lemma fixed_point_weak_coupling:
  "fixed_point [[x, 0], [0, y]] [[0, 4 / 5], [1 / 10000, 0]] [[0, 0], [0, 0]]
     [[9 / 25, 0], [0, 1000000]] =
   [[2 * x - 9 / 25 - 16 / 25 * y, 0], [0, 2 * y - 1000000 - x / 10 ^ 8]]"
  by (simp add: fixed_point_def array_defs)

lemma accelerate_diagonal:
  "accelerate [[x0, 0], [0, y0]] [[x1, 0], [0, y1]] [[x2, 0], [0, y2]] =
   [[del2 x0 x1 x2, 0], [0, del2 y0 y1 y2]]"
  by (simp add: accelerate_def del2_def)

lemma converged_diagonal:
  "converged xtol [[x, 0], [0, y]] [[x0, 0], [0, y0]] =
   (\<bar>relerr x x0\<bar> < xtol \<and> 0 < xtol \<and> \<bar>relerr y y0\<bar> < xtol)"
  by (auto simp: converged_def relerr_def)

lemma sco_fixed_point_weak_coupling:
  "sco_fixed_point
     (\<lambda>u. fixed_point u [[0, 4 / 5], [1 / 10000, 0]] [[0, 0], [0, 0]] [[9 / 25, 0], [0, 1000000]])
     [[1, 0], [0, 1]] =
   Inr [[100000056250001 / 156250000, 0], [0, 15625000100000056250001 / 15625000000000000]]"
proof -
  let ?F = "\<lambda>u. fixed_point u [[0, 4 / 5], [1 / 10000, 0]] [[0, 0], [0, 0]]
      [[9 / 25, 0], [0, 1000000]]"
  let ?P1 = "[[1, 0], [0, 100000000000001 / 100000000]]"
  let ?P2 = "[[100000056250001 / 156250000, 0], [0, 100000000000001 / 100000000]]"
  let ?P3 = "[[100000056250001 / 156250000, 0],
      [0, 15625000100000056250001 / 15625000000000000]]"
  have a1: "accelerate [[1, 0], [0, 1]] (?F [[1, 0], [0, 1]]) (?F (?F [[1, 0], [0, 1]])) = ?P1"
    unfolding fixed_point_weak_coupling accelerate_diagonal by (simp add: del2_def power2_eq_square)
  have c1: "\<not> converged (1 / 10 ^ 8) ?P1 [[1, 0], [0, 1]]"
    unfolding converged_diagonal by (simp add: relerr_def)
  have a2: "accelerate ?P1 (?F ?P1) (?F (?F ?P1)) = ?P2"
    unfolding fixed_point_weak_coupling accelerate_diagonal by (simp add: del2_def power2_eq_square)
  have c2: "\<not> converged (1 / 10 ^ 8) ?P2 ?P1"
    unfolding converged_diagonal by (simp add: relerr_def)
  have a3: "accelerate ?P2 (?F ?P2) (?F (?F ?P2)) = ?P3"
    unfolding fixed_point_weak_coupling accelerate_diagonal by (simp add: del2_def power2_eq_square)
  have c3: "converged (1 / 10 ^ 8) ?P3 ?P2"
    unfolding converged_diagonal by (simp add: relerr_def)
  have "fixed_point_helper ?F [[1, 0], [0, 1]] (1 / 10 ^ 8) (Suc (Suc (Suc 497))) = Inr ?P3"
    unfolding fixed_point_helper.simps Let_def a1 a2 a3 using c1 c2 c3 by simp
  moreover have "(500::nat) = Suc (Suc (Suc 497))" by simp
  ultimately show ?thesis unfolding sco_fixed_point_def by metis
qed

section \<open>Inner products and quadratic forms\<close>

lemma vdot_Nil [simp]: "vdot [] v = 0" "vdot u [] = 0"
  by (simp_all add: vdot_def)

lemma vdot_Cons [simp]: "vdot (x # xs) (y # ys) = x * y + vdot xs ys"
  by (simp add: vdot_def)

lemma vdot_commute: "vdot u v = vdot v u"
proof (induction u arbitrary: v)
  case Nil
  show ?case by simp
next
  case (Cons x xs)
  then show ?case by (cases v) simp_all
qed

lemma vdot_zeros_left [simp]: "vdot (replicate k 0) v = 0"
proof (induction k arbitrary: v)
  case 0
  show ?case by simp
next
  case (Suc k)
  then show ?case by (cases v) simp_all
qed

lemma vdot_zeros_right [simp]: "vdot v (replicate k 0) = 0"
  by (subst vdot_commute) simp

lemma vdot_divide_left: "vdot (map (\<lambda>x. x / s) u) v = vdot u v / s"
proof (induction u arbitrary: v)
  case Nil
  show ?case by simp
next
  case (Cons x xs)
  then show ?case by (cases v) (simp_all add: add_divide_distrib)
qed

lemma vdot_affine_rows:
  "vdot y (map (\<lambda>r. f r * c + g r) rs) = c * vdot y (map f rs) + vdot y (map g rs)"
proof (induction rs arbitrary: y)
  case Nil
  show ?case by simp
next
  case (Cons r rs)
  then show ?case by (cases y) (simp_all add: algebra_simps)
qed

lemma vdot_rank_one_row:
  "length drow = length l \<Longrightarrow>
   vdot (map2 (\<lambda>d lj. d - li * lj) drow l) y = vdot drow y - li * vdot l y"
proof (induction drow l arbitrary: y rule: list_induct2)
  case Nil
  show ?case by simp
next
  case (Cons d ds lj ls)
  then show ?case by (cases y) (simp_all add: algebra_simps)
qed

lemma vdot_rank_one_rows:
  "length rs = length l \<Longrightarrow>
   vdot y (map2 (\<lambda>row li. g row - li * c) rs l) = vdot y (map g rs) - c * vdot y l"
proof (induction rs l arbitrary: y rule: list_induct2)
  case Nil
  show ?case by simp
next
  case (Cons r rs li ls)
  then show ?case by (cases y) (simp_all add: algebra_simps)
qed

text \<open>A square matrix with at least one row, taken apart.\<close>

lemma has_shape_Cons:
  "has_shape (Suc k) m (r # rs) = (length r = m \<and> has_shape k m rs)"
  by (auto simp: has_shape_def)

lemma has_shape_tails:
  "has_shape k (Suc m) rs \<Longrightarrow> has_shape k m (map tl rs)"
  by (simp add: has_shape_def list_all_length)

lemma rows_nonempty:
  "has_shape k (Suc m) rs \<Longrightarrow> r \<in> set rs \<Longrightarrow> hd r # tl r = r"
  by (cases r) (auto simp: has_shape_def list_all_iff)

lemma mv_Cons_rows:
  assumes "has_shape k (Suc m) rs"
  shows "mv rs (x0 # y) = map (\<lambda>row. hd row * x0 + vdot (tl row) y) rs"
  unfolding mv_def
proof (rule map_cong [OF refl])
  fix r assume "r \<in> set rs"
  then have "hd r # tl r = r" using assms by (rule rows_nonempty [rotated])
  then have "vdot r (x0 # y) = vdot (hd r # tl r) (x0 # y)" by simp
  then show "vdot r (x0 # y) = hd r * x0 + vdot (tl r) y" by simp
qed

lemma quad_Cons:
  assumes "has_shape k (Suc m) rs"
  shows "quad ((a # bt) # rs) (x0 # y) =
    a * x0\<^sup>2 + x0 * vdot bt y + x0 * vdot (map hd rs) y + quad (map tl rs) y"
proof -
  have "mv ((a # bt) # rs) (x0 # y) = (a * x0 + vdot bt y) # mv rs (x0 # y)"
    by (simp add: mv_def)
  then have "quad ((a # bt) # rs) (x0 # y) =
      x0 * (a * x0 + vdot bt y) + vdot y (map (\<lambda>row. hd row * x0 + vdot (tl row) y) rs)"
    by (simp add: quad_def mv_Cons_rows [OF assms])
  also have "vdot y (map (\<lambda>row. hd row * x0 + vdot (tl row) y) rs) =
      x0 * vdot y (map hd rs) + vdot y (map (\<lambda>row. vdot (tl row) y) rs)"
    by (rule vdot_affine_rows)
  also have "map (\<lambda>row. vdot (tl row) y) rs = mv (map tl rs) y"
    by (simp add: mv_def o_def)
  finally show ?thesis
    by (simp add: quad_def vdot_commute [of y "map hd rs"] power2_eq_square algebra_simps)
qed

lemma quad_schur:
  assumes "has_shape k (Suc k) rs" "length l = k"
  shows "quad (schur_complement l rs) y = quad (map tl rs) y - (vdot l y)\<^sup>2"
proof -
  have len: "length rs = length l" using assms by (simp add: has_shape_def)
  have row: "vdot (map2 (\<lambda>d lj. d - li * lj) (tl row) l) y = vdot (tl row) y - li * vdot l y"
    if "row \<in> set rs" for row li
  proof (rule vdot_rank_one_row)
    from that assms show "length (tl row) = length l"
      by (auto simp: has_shape_def list_all_iff)
  qed
  have "mv (schur_complement l rs) y =
      map2 (\<lambda>row li. vdot (tl row) y - li * vdot l y) rs l"
    unfolding mv_def schur_complement_def map_map o_def
    by (rule map_cong [OF refl]) (auto simp: row dest: set_zip_leftD)
  then have "quad (schur_complement l rs) y =
      vdot y (map (\<lambda>row. vdot (tl row) y) rs) - vdot l y * vdot y l"
    unfolding quad_def by (simp add: vdot_rank_one_rows [OF len])
  also have "map (\<lambda>row. vdot (tl row) y) rs = mv (map tl rs) y"
    by (simp add: mv_def o_def)
  finally show ?thesis
    by (simp add: quad_def vdot_commute [of y l] power2_eq_square)
qed


section \<open>The factor of a positive definite matrix\<close>

lemma symmetricD:
  "symmetric M \<Longrightarrow> i < length M \<Longrightarrow> j < length M \<Longrightarrow> M ! i ! j = M ! j ! i"
  by (simp add: symmetric_def)

lemma pos_def_symmetric: "pos_def M \<Longrightarrow> symmetric M"
  by (simp add: pos_def_def)

lemma pos_defD:
  "pos_def M \<Longrightarrow> length x = length M \<Longrightarrow> x \<noteq> replicate (length M) 0 \<Longrightarrow> 0 < quad M x"
  by (simp add: pos_def_def)

lemma pos_def_Cons_shape:
  assumes "pos_def (r # rs)"
  shows "length r = Suc (length rs)" "has_shape (length rs) (Suc (length rs)) rs"
  using assms by (simp_all add: pos_def_def has_shape_Cons)

lemma pos_def_first_row:
  assumes "pos_def ((a # bt) # rs)"
  shows "bt = map hd rs"
proof (rule nth_equalityI)
  note sh = pos_def_Cons_shape [OF assms]
  show len: "length bt = length (map hd rs)" using sh by simp
  fix j assume "j < length bt"
  then have j: "j < length rs" using len by simp
  then have "rs ! j \<noteq> []" using sh(2) by (auto simp: has_shape_def list_all_length)
  then have "hd (rs ! j) = rs ! j ! 0" by (simp add: hd_conv_nth)
  moreover have "((a # bt) # rs) ! 0 ! Suc j = ((a # bt) # rs) ! Suc j ! 0"
    by (rule symmetricD [OF pos_def_symmetric [OF assms]]) (use j in simp_all)
  then have "bt ! j = rs ! j ! 0" by simp
  ultimately show "bt ! j = map hd rs ! j" using j by simp
qed

lemma quad_zeros [simp]: "quad M (replicate k 0) = 0"
  by (simp add: quad_def)

lemma pos_def_pivot:
  assumes "pos_def ((a # bt) # rs)"
  shows "0 < a"
proof -
  note sh = pos_def_Cons_shape [OF assms]
  have "0 < quad ((a # bt) # rs) (1 # replicate (length rs) 0)"
    by (rule pos_defD [OF assms]) simp_all
  then show ?thesis by (simp add: quad_Cons [OF sh(2)])
qed

lemma schur_complement_shape:
  assumes "has_shape k (Suc k) rs" "length l = k"
  shows "has_shape k k (schur_complement l rs)"
  using assms by (auto simp: has_shape_def schur_complement_def list_all_length)

lemma schur_complement_entry:
  assumes "has_shape k (Suc k) rs" "length l = k" "i < k" "j < k"
  shows "schur_complement l rs ! i ! j = rs ! i ! Suc j - l ! i * l ! j"
proof -
  have "length (rs ! i) = Suc k" using assms by (simp add: has_shape_nth)
  then show ?thesis
    using assms by (simp add: schur_complement_def has_shape_def nth_tl)
qed

lemma schur_complement_pos_def:
  assumes pd: "pos_def ((a # bt) # rs)"
  shows "pos_def (schur_complement (map (\<lambda>row. hd row / sqrt a) rs) rs)"
proof -
  let ?k = "length rs"
  let ?l = "map (\<lambda>row. hd row / sqrt a) rs"
  let ?S = "schur_complement ?l rs"
  note sh = pos_def_Cons_shape [OF pd]
  have a: "0 < a" using pd by (rule pos_def_pivot)
  have bt: "bt = map hd rs" using pd by (rule pos_def_first_row)
  have l: "length ?l = ?k" by simp
  have S: "has_shape ?k ?k ?S" using sh(2) l by (rule schur_complement_shape)
  then have lenS: "length ?S = ?k" by (simp add: has_shape_def)
  have sym: "symmetric ?S"
    unfolding symmetric_def lenS
  proof (intro allI impI)
    fix i j assume ij: "i < ?k" "j < ?k"
    have "((a # bt) # rs) ! Suc i ! Suc j = ((a # bt) # rs) ! Suc j ! Suc i"
      by (rule symmetricD [OF pos_def_symmetric [OF pd]]) (use ij in simp_all)
    then have "rs ! i ! Suc j = rs ! j ! Suc i" by simp
    then show "?S ! i ! j = ?S ! j ! i"
      by (simp add: schur_complement_entry [OF sh(2) l ij]
          schur_complement_entry [OF sh(2) l ij(2,1)])
  qed
  have pos: "0 < quad ?S y" if y: "length y = ?k" "y \<noteq> replicate ?k 0" for y
  proof -
    define c where "c = vdot (map hd rs) y"
    define x0 where "x0 = - c / a"
    have "0 < quad ((a # bt) # rs) (x0 # y)"
      by (rule pos_defD [OF pd]) (use y in simp_all)
    also have "quad ((a # bt) # rs) (x0 # y) = a * x0\<^sup>2 + 2 * x0 * c + quad (map tl rs) y"
      by (simp add: quad_Cons [OF sh(2)] bt c_def)
    also have "a * x0\<^sup>2 + 2 * x0 * c = - (c\<^sup>2 / a)"
      using a by (simp add: x0_def power2_eq_square field_simps)
    finally have "0 < quad (map tl rs) y - c\<^sup>2 / a" by simp
    moreover have "?l = map (\<lambda>x. x / sqrt a) (map hd rs)"
      by (simp add: o_def)
    then have "(vdot ?l y)\<^sup>2 = c\<^sup>2 / a"
      using a by (simp add: vdot_divide_left c_def power_divide del: map_map)
    ultimately show ?thesis
      by (simp add: quad_schur [OF sh(2) l])
  qed
  show ?thesis
    unfolding pos_def_def lenS using S sym pos by simp
qed

lemma column_transpose:
  assumes "has_shape n m L" "j < n"
  shows "column (mT L) j = L ! j"
proof -
  have n: "shape1 L = m"
    using assms by (cases L) (auto simp: has_shape_def shape1_def)
  have "column (mT L) j = map (\<lambda>c. L ! j ! c) [0..<m]"
    using assms by (simp add: column_def mT_def n has_shape_def)
  also have "\<dots> = L ! j"
    using has_shape_nth [OF assms] by (metis map_nth)
  finally show ?thesis .
qed

lemma dot_transpose_entry:
  assumes "has_shape n n L" "i < n" "j < n"
  shows "dot L (mT L) ! i ! j = vdot (L ! i) (L ! j)"
  using assms
  by (simp add: dot_def shape1_mT_square [OF assms(1)] column_transpose [OF assms(1,3)]
      has_shape_def)


lemma cholesky_lower_pos_def:
  "pos_def M \<Longrightarrow>
   \<exists>L. cholesky_lower M = Inr L \<and> has_shape (length M) (length M) L \<and>
     lower_triangular L \<and> dot L (mT L) = M"
proof (induction M rule: cholesky_lower.induct)
  case 1
  show ?case by (simp add: has_shape_def lower_triangular_def dot_def)
next
  case (2 r rs)
  let ?k = "length rs"
  note sh = pos_def_Cons_shape [OF "2.prems"]
  from sh(1) obtain a bt where r: "r = a # bt" by (cases r) auto
  have pd: "pos_def ((a # bt) # rs)" using "2.prems" r by simp
  have a: "0 < a" using pd by (rule pos_def_pivot)
  define s where "s = sqrt a"
  define l where "l = map (\<lambda>row. hd row / s) rs"
  define S where "S = schur_complement l rs"
  have s: "0 < s" "s * s = a" using a by (simp_all add: s_def)
  have len_l: "length l = ?k" by (simp add: l_def)
  have pdS: "pos_def S"
    unfolding S_def l_def s_def using pd by (rule schur_complement_pos_def)
  have lenS: "length S = ?k"
    using schur_complement_shape [OF sh(2) len_l] by (simp add: S_def has_shape_def)
  have "\<exists>L. cholesky_lower S = Inr L \<and> has_shape (length S) (length S) L \<and>
      lower_triangular L \<and> dot L (mT L) = S"
  proof -
    have S': "schur_complement (map (\<lambda>row. hd row / sqrt (hd r)) rs) rs = S"
      by (simp add: S_def l_def s_def r)
    have "\<not> hd r \<le> 0" using a r by simp
    moreover have "pos_def (schur_complement (map (\<lambda>row. hd row / sqrt (hd r)) rs) rs)"
      unfolding S' by (rule pdS)
    ultimately show ?thesis
      using "2.IH" [OF refl _ refl refl] unfolding S' by blast
  qed
  then obtain L22 where L22: "cholesky_lower S = Inr L22" "has_shape ?k ?k L22"
    "lower_triangular L22" "dot L22 (mT L22) = S"
    unfolding lenS by blast
  define L where "L = (s # replicate ?k 0) # map2 (#) l L22"
  have chol: "cholesky_lower (r # rs) = Inr L"
    using a L22(1) by (simp add: r Let_def L_def S_def l_def s_def)
  have lenL22: "length L22 = ?k" using L22(2) by (simp add: has_shape_def)
  have row0: "L ! 0 = s # replicate ?k 0" by (simp add: L_def)
  have rowS: "L ! Suc i = l ! i # L22 ! i" if "i < ?k" for i
    using that len_l lenL22 by (simp add: L_def)
  have shL: "has_shape (Suc ?k) (Suc ?k) L"
  proof -
    have "has_shape ?k (Suc ?k) (map2 (#) l L22)"
      using L22(2) len_l by (simp add: has_shape_def list_all_length)
    then show ?thesis by (simp add: L_def has_shape_Cons)
  qed
  have tri: "lower_triangular L"
    unfolding lower_triangular_def
  proof (intro allI impI)
    fix i j assume ij: "i < length L" "j < length (L ! i)" "i < j"
    from ij(3) obtain j' where j: "j = Suc j'" by (cases j) auto
    show "L ! i ! j = 0"
    proof (cases i)
      case 0
      with ij(2) show ?thesis by (simp add: row0 j)
    next
      case (Suc i')
      with ij(1) shL have i': "i' < ?k" by (simp add: has_shape_def)
      from ij(2) have "j' < length (L22 ! i')" by (simp add: Suc rowS [OF i'] j)
      moreover have "i' < j'" using ij(3) by (simp add: Suc j)
      ultimately have "L22 ! i' ! j' = 0"
        using L22(3) i' lenL22 by (simp add: lower_triangular_def)
      then show ?thesis by (simp add: Suc rowS [OF i'] j)
    qed
  qed
  have inner: "vdot (L22 ! i) (L22 ! j) = rs ! i ! Suc j - l ! i * l ! j"
    if "i < ?k" "j < ?k" for i j
  proof -
    have "vdot (L22 ! i) (L22 ! j) = S ! i ! j"
      using dot_transpose_entry [OF L22(2) that] by (simp add: L22(4))
    then show ?thesis
      by (simp add: S_def schur_complement_entry [OF sh(2) len_l that])
  qed
  have hd_row: "hd (rs ! i) = rs ! i ! 0" if "i < ?k" for i
  proof -
    have "rs ! i \<noteq> []" using sh(2) that by (auto simp: has_shape_def list_all_length)
    then show ?thesis by (simp add: hd_conv_nth)
  qed
  have li: "l ! i * s = rs ! i ! 0" if "i < ?k" for i
    using that s by (simp add: l_def hd_row)
  have bt: "bt ! j = rs ! j ! 0" if "j < ?k" for j
    using pos_def_first_row [OF pd] that by (simp add: hd_row)
  have "dot L (mT L) = (a # bt) # rs"
  proof (rule mat_eqI)
    show "has_shape (Suc ?k) (Suc ?k) (dot L (mT L))"
      using shL by (rule has_shape_dot_transpose)
    show "has_shape (Suc ?k) (Suc ?k) ((a # bt) # rs)"
      using pd by (simp add: pos_def_def)
    fix i j assume ij: "i < Suc ?k" "j < Suc ?k"
    have e: "dot L (mT L) ! i ! j = vdot (L ! i) (L ! j)"
      using shL ij by (rule dot_transpose_entry)
    show "dot L (mT L) ! i ! j = ((a # bt) # rs) ! i ! j"
    proof (cases i)
      case i0: 0
      show ?thesis
      proof (cases j)
        case 0
        then show ?thesis using e by (simp add: i0 row0 s)
      next
        case (Suc j')
        with ij have j': "j' < ?k" by simp
        show ?thesis
          using li [OF j'] e by (simp add: i0 Suc row0 rowS [OF j'] bt [OF j'] mult.commute)
      qed
    next
      case iS: (Suc i')
      with ij have i': "i' < ?k" by simp
      show ?thesis
      proof (cases j)
        case 0
        then show ?thesis
          using li [OF i'] e by (simp add: iS row0 rowS [OF i'])
      next
        case (Suc j')
        with ij have j': "j' < ?k" by simp
        show ?thesis
          using e by (simp add: iS Suc rowS [OF i'] rowS [OF j'] inner [OF i' j'])
      qed
    qed
  qed
  with chol shL tri show ?case by (simp add: r)
qed

section \<open>The Cholesky routine on examples and on zero matrices\<close>

lemma sl_cholesky_contract: "cholesky_contract sl_cholesky"
  unfolding cholesky_contract_def
proof (intro allI impI)
  fix M assume pd: "pos_def M"
  then have "sl_cholesky M True = cholesky_lower M"
    by (simp add: sl_cholesky_def pos_def_def)
  with cholesky_lower_pos_def [OF pd]
  show "\<exists>L. sl_cholesky M True = Inr L \<and> has_shape (length M) (length M) L \<and>
      lower_triangular L \<and> dot L (mT L) = M"
    by simp
qed

lemma quad_2x2: "quad [[p, q], [r, s]] [x, y] = x * (p * x + q * y) + y * (r * x + s * y)"
  by (simp add: quad_def mv_def)

lemma pos_def_example: "pos_def [[4, 2], [2, 4]]"
  unfolding pos_def_def
proof (intro conjI allI impI)
  show "has_shape (length [[4, 2], [2, 4::real]]) (length [[4, 2], [2, 4::real]]) [[4, 2], [2, 4]]"
    by (simp add: has_shape_def)
  show "symmetric [[4, 2], [2, 4]]"
    by (simp add: symmetric_def less_Suc_eq)
  fix x :: vec
  assume x: "length x = length [[4, 2], [2, 4::real]] \<and> x \<noteq> replicate (length [[4, 2], [2, 4::real]]) 0"
  then obtain u v where uv: "x = [u, v]"
    by (cases x; cases "tl x") auto
  with x have nz: "u \<noteq> 0 \<or> v \<noteq> 0" by auto
  have "quad [[4, 2], [2, 4]] [u, v] = 2 * u\<^sup>2 + 2 * v\<^sup>2 + 2 * (u + v)\<^sup>2"
    by (simp add: quad_2x2 power2_eq_square algebra_simps)
  moreover have "0 < 2 * u\<^sup>2 + 2 * v\<^sup>2 + 2 * (u + v)\<^sup>2"
  proof -
    have "0 < u\<^sup>2 + v\<^sup>2" using nz by (simp add: sum_power2_gt_zero_iff)
    moreover have "0 \<le> (u + v)\<^sup>2" by simp
    ultimately show ?thesis by linarith
  qed
  ultimately show "0 < quad [[4, 2], [2, 4]] x" by (simp add: uv)
qed

lemma residual_example:
  "target_residual [[1 / 2, 0], [0, 1 / 2]] [[1 / 2, 0], [0, 1 / 2]] [[8, 4], [4, 8]] =
     [[4, 2], [2, 4]]"
  by (simp add: target_residual_def array_defs upt_conv_Cons)

lemma cholesky_example: "sl_cholesky [[4, 2], [2, 4]] True = Inr [[2, 0], [1, sqrt 3]]"
  by (simp add: sl_cholesky_def has_shape_def schur_complement_def Let_def)

lemma column_zeros: "j < m \<Longrightarrow> column (zeros n m) j = replicate n 0"
  by (simp add: column_def zeros_def)

lemma shape1_zeros: "0 < n \<Longrightarrow> shape1 (zeros n m) = m"
  by (cases n) (simp_all add: shape1_def zeros_def)

lemma has_shape_zeros: "has_shape n m (zeros n m)"
  by (simp add: has_shape_def zeros_def list_all_length)

lemma dot_zeros_right: "0 < n \<Longrightarrow> dot A (zeros n m) = zeros (length A) m"
proof -
  assume n: "0 < n"
  have "map (\<lambda>j. vdot r (column (zeros n m) j)) [0..<m] = replicate m 0" for r
  proof -
    have "map (\<lambda>j. vdot r (column (zeros n m) j)) [0..<m] = map (\<lambda>j. 0) [0..<m]"
      by (rule map_cong [OF refl]) (simp add: column_zeros)
    then show ?thesis by (simp add: map_replicate_const)
  qed
  then show ?thesis
    unfolding dot_def shape1_zeros [OF n] by (simp add: zeros_def map_replicate_const)
qed

lemma dot_zeros_left: "dot (zeros n k) B = zeros n (shape1 B)"
  by (simp add: dot_def zeros_def map_replicate_const)

lemma mT_zeros: "0 < n \<Longrightarrow> mT (zeros n m) = zeros m n"
proof -
  assume n: "0 < n"
  have "map (column (zeros n m)) [0..<m] = map (\<lambda>j. replicate n 0) [0..<m]"
    by (rule map_cong [OF refl]) (simp add: column_zeros)
  then show ?thesis
    unfolding mT_def shape1_zeros [OF n] by (simp add: zeros_def map_replicate_const)
qed

lemma msub_zeros: "msub (zeros n m) (zeros n m) = zeros n m"
  by (simp add: msub_def zeros_def zip_replicate map_replicate_const)

lemma sdiv_zeros: "sdiv (zeros n m) k = zeros n m"
  by (simp add: sdiv_def zeros_def)

lemma target_residual_zeros:
  assumes "0 < n" "has_shape n n a" "has_shape n n b"
  shows "target_residual a b (zeros n n) = zeros n n"
proof -
  have "dot (dot a (zeros n n)) (mT a) = zeros n n" if "has_shape n n a" for a
    using assms(1)
    by (simp add: dot_zeros_right dot_zeros_left shape1_mT_square [OF that]
        has_shape_length [OF that])
  then show ?thesis
    using assms by (simp add: target_residual_def msub_zeros)
qed

lemma sl_cholesky_zeros: "0 < n \<Longrightarrow> sl_cholesky (zeros n n) True = Inl LinAlgError"
proof -
  assume "0 < n"
  then obtain k where n: "n = Suc k" by (cases n) auto
  have "zeros n n = (0 # replicate k 0) # replicate k (replicate n 0)"
    by (simp add: zeros_def n)
  moreover have "has_shape (length (zeros n n)) (length (zeros n n)) (zeros n n)"
    using has_shape_zeros [of n n] by (simp add: zeros_def)
  ultimately show ?thesis
    by (simp add: sl_cholesky_def)
qed

lemma estimate_target_zeros:
  assumes "0 < n" "0 < T"
  shows "estimate_target (zeros T n) True = Some (zeros n n)"
  using assms
  by (simp add: estimate_target_def mT_zeros dot_zeros_right sdiv_zeros shape1_zeros zeros_def [of n T])

lemma np_max_Max: "xs \<noteq> [] \<Longrightarrow> np_max xs = Inr (Max (set xs))"
proof (cases xs)
  case Nil
  assume "xs \<noteq> []"
  with Nil show ?thesis by simp
next
  case (Cons x ys)
  have "Max (set (x # ys)) = fold max ys x" by (rule Max.set_eq_fold)
  with Cons show ?thesis by simp
qed

lemma spectrum_1x1: "spectrum [[k]] = {complex_of_real k}"
proof -
  have "is_eigenvalue [[k]] lam = (lam = complex_of_real k)" for lam
  proof
    assume "is_eigenvalue [[k]] lam"
    then obtain v where v: "length v = 1" "v \<noteq> [0]" "cmv [[k]] v = map (\<lambda>z. lam * z) v"
      by (auto simp: is_eigenvalue_def)
    from v(1) obtain z where z: "v = [z]" by (cases v) auto
    with v(2,3) show "lam = complex_of_real k" by (simp add: cmv_def)
  next
    assume "lam = complex_of_real k"
    then have "length [1::complex] = length [[k]] \<and> [1::complex] \<noteq> replicate (length [[k]]) 0 \<and>
        cmv [[k]] [1] = map (\<lambda>z. lam * z) [1]"
      by (simp add: cmv_def)
    then show "is_eigenvalue [[k]] lam" unfolding is_eigenvalue_def by blast
  qed
  then show ?thesis by (auto simp: spectrum_def)
qed

section \<open>The Kronecker product\<close>

text \<open>The entries of \<open>kron A B\<close> are the products \<open>A[i, j] * B[k, l]\<close>, in the places of the Kronecker product.\<close>

lemma nth_concat_uniform:
  "\<forall>x \<in> set xs. length (f x) = p \<Longrightarrow> i < length xs \<Longrightarrow> k < p \<Longrightarrow>
   concat (map f xs) ! (i * p + k) = f (xs ! i) ! k"
proof (induction xs arbitrary: i)
  case Nil
  then show ?case by simp
next
  case (Cons x xs)
  show ?case
  proof (cases i)
    case 0
    with Cons.prems show ?thesis by (simp add: nth_append)
  next
    case (Suc i')
    with Cons.prems have "concat (map f xs) ! (i' * p + k) = f (xs ! i') ! k"
      by (intro Cons.IH) simp_all
    with Cons.prems show ?thesis by (simp add: Suc nth_append)
  qed
qed

lemma kron_entry:
  assumes "has_shape n m A" "has_shape p q B" "i < n" "j < m" "k < p" "l < q"
  shows "kron A B ! (i * p + k) ! (j * q + l) = A ! i ! j * B ! k ! l"
proof -
  let ?row = "\<lambda>ra rb. concat (map (\<lambda>x. map (\<lambda>y. x * y) rb) ra)"
  have lenB: "length B = p" and lenA: "length A = n"
    using assms by (simp_all add: has_shape_def)
  have "kron A B ! (i * p + k) = map (?row (A ! i)) B ! k"
    unfolding kron_def
    by (rule nth_concat_uniform) (use assms lenA lenB in simp_all)
  then have "kron A B ! (i * p + k) = ?row (A ! i) (B ! k)"
    using assms lenB by simp
  moreover have "?row (A ! i) (B ! k) ! (j * q + l) = map (\<lambda>y. A ! i ! j * y) (B ! k) ! l"
    by (rule nth_concat_uniform)
      (use assms has_shape_nth [OF assms(1,3)] has_shape_nth [OF assms(2,5)] in simp_all)
  ultimately show ?thesis
    using has_shape_nth [OF assms(2,5)] assms by simp
qed

section \<open>Branches of the objective function\<close>

lemma likelihood_sentinel_branch:
  assumes "self_param_start self = Some start"
    and "ext_BEKKParams ext theta target (shape1 (self_innov self)) (restriction start) = Inr p"
    and "constraint (ext_eigvals ext) p = Inr score"
    and "1 \<le> score \<or> cmat p = None"
  shows "likelihood ext self theta target = (Inr (Float (10 ^ 10)), self)"
  using assms by (auto simp: likelihood_def Let_def)

lemma kron_1x1: "kron [[x]] [[y]] = [[x * y]]"
  by (simp add: kron_def)

lemma constraint_one_stock:
  "constraint eigvals_one_stock \<lparr>amat = [[x]], bmat = [[y]], cmat = c\<rparr> = Inr \<bar>x * x + y * y\<bar>"
  by (simp add: constraint_def kron_1x1 madd_def eigvals_one_stock_def norm_of_real del: of_real_add of_real_mult)

section \<open>Block diagonal matrices\<close>

lemma vdot_append:
  "length a = length c \<Longrightarrow> vdot (a @ b) (c @ d) = vdot a c + vdot b d"
  by (induction a c rule: list_induct2) simp_all

lemma length_mv [simp]: "length (mv M x) = length M"
  by (simp add: mv_def)

lemma mv_block_sum:
  assumes "has_shape n n H" "length x = n"
  shows "mv (block_sum H M) (x @ y) = mv H x @ mv M y"
proof -
  have "vdot (r @ replicate (length M) 0) (x @ y) = vdot r x" if "r \<in> set H" for r
  proof -
    have "length r = length x" using assms that by (simp add: has_shape_def list_all_iff)
    then show ?thesis by (simp add: vdot_append)
  qed
  moreover have "vdot (replicate (length H) 0 @ r) (x @ y) = vdot r y" for r
  proof -
    have "length (replicate (length H) (0::real)) = length x"
      using assms by (simp add: has_shape_def)
    then show ?thesis by (simp add: vdot_append del: length_replicate)
  qed
  ultimately show ?thesis
    by (simp add: mv_def block_sum_def)
qed

lemma drop_col_append_left:
  "j < length r \<Longrightarrow> drop_col j (r @ z) = drop_col j r @ z"
  by (simp add: drop_col_def)

lemma drop_col_zeros_left:
  assumes "j < Suc k"
  shows "drop_col j (replicate (Suc k) 0 @ r) = replicate k 0 @ r"
proof -
  let ?z = "replicate (Suc k) (0::'a)"
  have "take j (?z @ r) = replicate j 0"
    using assms by (simp add: min_def del: replicate.simps)
  moreover have "drop (Suc j) (?z @ r) = replicate (k - j) 0 @ r"
    using assms by (simp del: replicate.simps)
  moreover have "replicate j (0::'a) @ replicate (k - j) 0 = replicate k 0"
    using assms by (simp add: replicate_add [symmetric])
  ultimately show ?thesis
    unfolding drop_col_def by simp
qed

lemma length_drop_col: "j < length r \<Longrightarrow> length (drop_col j r) = length r - 1"
  by (simp add: drop_col_def)

lemma has_shape_minor:
  "has_shape k (Suc k) rs \<Longrightarrow> j < Suc k \<Longrightarrow> has_shape k k (map (drop_col j) rs)"
  by (simp add: has_shape_def list_all_length length_drop_col)

lemma minor_block_sum:
  assumes "has_shape k (Suc k) rs" "j < Suc k"
  shows "map (drop_col j)
      (map (\<lambda>r. r @ replicate (length M) 0) rs @ map (\<lambda>r. replicate (Suc k) 0 @ r) M) =
    block_sum (map (drop_col j) rs) M"
proof -
  have "drop_col j (r @ replicate (length M) 0) = drop_col j r @ replicate (length M) 0"
    if "r \<in> set rs" for r
  proof (rule drop_col_append_left)
    show "j < length r" using assms that by (simp add: has_shape_def list_all_iff)
  qed
  moreover have "length rs = k" using assms by (simp add: has_shape_def)
  ultimately show ?thesis
    using assms(2) by (simp add: block_sum_def drop_col_zeros_left o_def del: replicate.simps)
qed

lemma det_block_sum: "has_shape n n H \<Longrightarrow> det (block_sum H M) = det H * det M"
proof (induction n arbitrary: H)
  case 0
  then have "H = []" by (simp add: has_shape_def)
  then show ?case by (simp add: block_sum_def)
next
  case (Suc k)
  then obtain r rs where H: "H = r # rs" by (cases H) (auto simp: has_shape_def)
  with Suc.prems have r: "length r = Suc k" and rs: "has_shape k (Suc k) rs"
    by (simp_all add: has_shape_Cons)
  let ?m = "length M"
  let ?rest = "map (\<lambda>r. r @ replicate ?m 0) rs @ map (\<lambda>r. replicate (Suc k) 0 @ r) M"
  let ?f = "\<lambda>j. (- 1) ^ j * (r @ replicate ?m 0) ! j * det (map (drop_col j) ?rest)"
  have lenrs: "length rs = k" using rs by (simp add: has_shape_def)
  have bs: "block_sum H M = (r @ replicate ?m 0) # ?rest"
    by (simp add: block_sum_def H lenrs del: replicate.simps)
  have split: "[0..<Suc k + ?m] = [0..<Suc k] @ [Suc k..<Suc k + ?m]"
    by (metis le_add1 upt_add_eq_append zero_le)
  have left: "?f j = (- 1) ^ j * r ! j * det (map (drop_col j) rs) * det M"
    if "j \<in> set [0..<Suc k]" for j
  proof -
    from that have j: "j < Suc k" by auto
    have "det (map (drop_col j) ?rest) = det (map (drop_col j) rs) * det M"
      unfolding minor_block_sum [OF rs j]
      by (rule Suc.IH) (rule has_shape_minor [OF rs j])
    moreover have "(r @ replicate ?m 0) ! j = r ! j"
      using j r by (simp add: nth_append)
    ultimately show ?thesis by simp
  qed
  have right: "?f j = 0" if "j \<in> set [Suc k..<Suc k + ?m]" for j
  proof -
    from that have "Suc k \<le> j" "j - Suc k < ?m" by auto
    then have "(r @ replicate ?m 0) ! j = 0"
      using r by (simp add: nth_append del: replicate.simps)
    then show ?thesis by simp
  qed
  have "det (block_sum H M) = sum_list (map ?f [0..<Suc k + ?m])"
    unfolding bs by (simp add: r del: replicate.simps upt_Suc)
  also have "\<dots> = sum_list (map ?f [0..<Suc k]) + sum_list (map ?f [Suc k..<Suc k + ?m])"
    unfolding split by simp
  also have "map ?f [Suc k..<Suc k + ?m] = map (\<lambda>j. 0) [Suc k..<Suc k + ?m]"
    by (rule map_cong [OF refl]) (rule right)
  also have "map ?f [0..<Suc k] =
      map (\<lambda>j. (- 1) ^ j * r ! j * det (map (drop_col j) rs) * det M) [0..<Suc k]"
    by (rule map_cong [OF refl]) (rule left)
  also have "sum_list (map (\<lambda>j. (- 1) ^ j * r ! j * det (map (drop_col j) rs) * det M)
      [0..<Suc k]) = det H * det M"
    by (simp add: H r sum_list_mult_const del: upt_Suc)
  finally show ?case by simp
qed

lemma length_block_sum: "length (block_sum H M) = length H + length M"
  by (simp add: block_sum_def)

lemma length_block_diag:
  "\<forall>H \<in> set Hs. length H = n \<Longrightarrow> length (block_diag Hs) = n * length Hs"
  by (induction Hs) (simp_all add: block_diag_def length_block_sum)

lemma det_block_diag:
  "\<forall>H \<in> set Hs. has_shape n n H \<Longrightarrow> det (block_diag Hs) = prod_list (map det Hs)"
proof (induction Hs)
  case Nil
  show ?case by (simp add: block_diag_def)
next
  case (Cons H Hs)
  then have "det (block_sum H (block_diag Hs)) = det H * det (block_diag Hs)"
    by (intro det_block_sum [of n]) simp
  with Cons show ?case by (simp add: block_diag_def)
qed

lemma ln_abs_prod_list:
  "\<forall>x \<in> set xs. x \<noteq> (0::real) \<Longrightarrow> ln \<bar>prod_list xs\<bar> = sum_list (map (\<lambda>x. ln \<bar>x\<bar>) xs)"
proof (induction xs)
  case Nil
  show ?case by simp
next
  case (Cons x xs)
  then have "prod_list xs \<noteq> 0" by (auto simp: prod_list_zero_iff)
  with Cons show ?case by (simp add: abs_mult ln_mult)
qed

lemma solve_blocks:
  "list_all2 (is_inverse n) His Hs \<Longrightarrow> \<forall>H \<in> set Hs. has_shape n n H \<Longrightarrow>
   length us = length Hs \<Longrightarrow> \<forall>u \<in> set us. length u = n \<Longrightarrow>
   length z = n * length Hs \<Longrightarrow> mv (block_diag Hs) z = concat us \<Longrightarrow>
   vdot z (concat us) =
     sum_list (map (\<lambda>(H, Hi, u). vdot u (mv Hi u)) (zip Hs (zip His us)))"
proof (induction Hs arbitrary: His us z)
  case Nil
  then show ?case by simp
next
  case (Cons H Hs)
  from Cons.prems(1) obtain Hi His' where His: "His = Hi # His'"
    and inv: "is_inverse n Hi H" and invs: "list_all2 (is_inverse n) His' Hs"
    by (auto simp: list_all2_Cons2)
  from Cons.prems(3) obtain u us' where us: "us = u # us'" and lens: "length us' = length Hs"
    by (cases us) auto
  have H: "has_shape n n H" and Hs: "\<forall>H \<in> set Hs. has_shape n n H"
    using Cons.prems(2) by simp_all
  have u: "length u = n" and us': "\<forall>u \<in> set us'. length u = n"
    using Cons.prems(4) us by simp_all
  define z1 where "z1 = take n z"
  define z2 where "z2 = drop n z"
  have z: "z = z1 @ z2" by (simp add: z1_def z2_def)
  have lz1: "length z1 = n" and lz2: "length z2 = n * length Hs"
    using Cons.prems(5) by (simp_all add: z1_def z2_def)
  have "mv H z1 @ mv (block_diag Hs) z2 = u @ concat us'"
    using Cons.prems(6) mv_block_sum [OF H lz1, of "block_diag Hs" z2]
    by (simp add: block_diag_def z us)
  moreover have "length (mv H z1) = length u"
    using H u by (simp add: has_shape_def)
  ultimately have top: "mv H z1 = u" and rest: "mv (block_diag Hs) z2 = concat us'"
    by simp_all
  have "z1 = mv Hi (mv H z1)" using inv lz1 by (simp add: is_inverse_def)
  then have z1: "z1 = mv Hi u" by (simp add: top)
  have "vdot z (concat us) = vdot z1 u + vdot z2 (concat us')"
    using lz1 u by (simp add: z us vdot_append)
  also have "vdot z2 (concat us') =
      sum_list (map (\<lambda>(H, Hi, u). vdot u (mv Hi u)) (zip Hs (zip His' us')))"
    using invs Hs lens us' lz2 rest by (rule Cons.IH)
  also have "vdot z1 u = vdot u (mv Hi u)"
    by (subst z1) (rule vdot_commute)
  finally show ?case by (simp add: His us)
qed

lemma sum_list_first_of_three:
  "length xs = length ys \<Longrightarrow> length ys = length zs \<Longrightarrow>
   sum_list (map (\<lambda>(x, y, z). f x) (zip xs (zip ys zs))) = sum_list (map f xs)"
  by (induction xs ys zs rule: list_induct3) simp_all

lemma gaussian_terms_split:
  assumes "length Hs = length His" "length His = length us"
  shows "gaussian_terms Hs His us =
    sum_list (map (\<lambda>H. ln \<bar>det H\<bar>) Hs) +
    sum_list (map (\<lambda>(H, Hi, u). vdot u (mv Hi u)) (zip Hs (zip His us)))"
proof -
  have "gaussian_terms Hs His us =
      sum_list (map (\<lambda>(H, Hi, u). ln \<bar>det H\<bar>) (zip Hs (zip His us))) +
      sum_list (map (\<lambda>(H, Hi, u). vdot u (mv Hi u)) (zip Hs (zip His us)))"
    unfolding gaussian_terms_def
    by (simp add: sum_list_addf [symmetric] case_prod_unfold)
  then show ?thesis
    using sum_list_first_of_three [OF assms, of "\<lambda>H. ln \<bar>det H\<bar>"] by simp
qed

lemma utils_likelihood_value:
  "splu hvar = Inr factor \<Longrightarrow>
   utils_likelihood splu hvar innov =
     Inr (sum_list (map (\<lambda>x. ln \<bar>x\<bar>) (not_nan (np_diag (lu_U factor)))) +
          vdot (lu_solve factor (concat innov)) (concat innov))"
  by (simp add: utils_likelihood_def vdot_def Let_def)

lemma det_1x1: "det [[x]] = x"
  by simp

lemma det_2x2: "det [[p, q], [r, s]] = p * s - q * r"
  by (simp add: drop_col_def upt_conv_Cons)

lemma is_inverse_1x1: "x \<noteq> 0 \<Longrightarrow> is_inverse 1 [[1 / x]] [[x]]"
  unfolding is_inverse_def
proof (intro allI impI)
  fix v :: vec assume "x \<noteq> 0" "length v = 1"
  then obtain a where "v = [a]" by (cases v) auto
  with \<open>x \<noteq> 0\<close> show "mv [[1 / x]] (mv [[x]] v) = v" by (simp add: mv_def)
qed

lemma block_diag_two: "block_diag [[[x]], [[y]]] = [[x, 0], [0, y]]"
  by (simp add: block_diag_def block_sum_def)

lemma get_block_block_sum_first:
  assumes "has_shape n n H"
  shows "get_block (block_sum H M) 0 n = H"
proof -
  have len: "length H = n" using assms by (simp add: has_shape_def)
  have "map (\<lambda>r. take n (r @ replicate (length M) 0)) H = map (\<lambda>r. r) H"
    by (rule map_cong [OF refl]) (use assms in \<open>simp add: has_shape_def list_all_iff\<close>)
  then show ?thesis
    by (simp add: get_block_def block_sum_def len o_def)
qed

lemma get_block_block_sum_rest:
  assumes "has_shape n n H"
  shows "get_block (block_sum H M) (n + lo) (n + hi) = get_block M lo hi"
proof -
  have len: "length H = n" using assms by (simp add: has_shape_def)
  then show ?thesis
    by (simp add: get_block_def block_sum_def drop_map take_map o_def)
qed

lemma get_block_block_diag:
  "\<forall>H \<in> set Hs. has_shape n n H \<Longrightarrow> t < length Hs \<Longrightarrow>
   get_block (block_diag Hs) (t * n) ((t + 1) * n) = Hs ! t"
proof (induction Hs arbitrary: t)
  case Nil
  then show ?case by simp
next
  case (Cons H Hs)
  then have H: "has_shape n n H" by simp
  show ?case
  proof (cases t)
    case 0
    then show ?thesis
      using get_block_block_sum_first [OF H] by (simp add: block_diag_def)
  next
    case (Suc t')
    with Cons.prems have "get_block (block_diag Hs) (t' * n) ((t' + 1) * n) = Hs ! t'"
      by (intro Cons.IH) simp_all
    then show ?thesis
      using get_block_block_sum_rest [OF H, of "block_diag Hs" "t' * n" "(t' + 1) * n"]
      by (simp add: block_diag_def Suc add.commute)
  qed
qed

section \<open>Claims\<close>

subsection \<open>The target covariance of the estimation\<close>

text \<open>
  C7 (what the code does): for the two observations \<open>1, 1\<close> of one series, the target that
  \<^verbatim>\<open>BEKK.estimate\<close> computes under variance targeting is \<open>[[2]]\<close>, the cross
  product divided by the number of series, while \<^verbatim>\<open>estimate_h0\<close> returns the sample
  covariance \<open>[[1]]\<close>, the cross product divided by the number of observations.
\<close>

theorem estimate_target_divides_by_nstocks:
  "estimate_target [[1], [1]] True = Some [[2]] \<and> estimate_h0 [[1], [1]] = [[1]]"
  by (simp add: estimate_target_def estimate_h0_def array_defs)

subsection \<open>The covariance filter\<close>

text \<open>
  C10: the covariance filter never writes to the initial slot of the covariance buffer.
  For every input, the block of the rows and columns \<open>0..<nstocks\<close> of the array that
  \<^verbatim>\<open>filter_var\<close> returns is the block the caller supplied.
\<close>

theorem filter_var_keeps_initial_block:
  "get_block (filter_var hvar innov c_mat a_mat b_mat) 0 (shape1 innov) =
   get_block hvar 0 (shape1 innov)"
  by (rule filter_var_block0)

text \<open>
  C2: for parameter matrices \<open>A\<close>, \<open>B\<close>, \<open>C\<close> of shape \<open>n \<times> n\<close>, \<open>T\<close> innovations
  of length \<open>n\<close> and a buffer of \<open>T\<close> diagonal blocks, the returned buffer holds in
  block \<open>t\<close>, for every \<open>t\<close> from 1 to \<open>T - 1\<close>, exactly
  \<open>CC' + A (u\<^bsub>t-1\<^esub> u\<^bsub>t-1\<^esub>') A' + B H\<^bsub>t-1\<^esub> B'\<close>, where \<open>H\<^bsub>t-1\<^esub>\<close> is block
  \<open>t - 1\<close> of the same returned buffer; block 0 is the initial covariance that the
  caller stored.
\<close>

theorem filter_var_fills_blocks:
  assumes "has_shape n n a_mat" and "has_shape n n b_mat" and "has_shape n n c_mat"
    and "has_shape T n innov" and "has_shape (T * n) (T * n) hvar"
    and "1 \<le> t" and "t < T"
  shows "get_block (filter_var hvar innov c_mat a_mat b_mat) (t * n) ((t + 1) * n) =
       bekk_recursion a_mat b_mat (dot c_mat (mT c_mat)) (outer (innov ! (t - 1)))
         (get_block (filter_var hvar innov c_mat a_mat b_mat) ((t - 1) * n) (t * n)) \<and>
     get_block (filter_var hvar innov c_mat a_mat b_mat) 0 n = get_block hvar 0 n"
proof
  show "get_block (filter_var hvar innov c_mat a_mat b_mat) (t * n) ((t + 1) * n) =
       bekk_recursion a_mat b_mat (dot c_mat (mT c_mat)) (outer (innov ! (t - 1)))
         (get_block (filter_var hvar innov c_mat a_mat b_mat) ((t - 1) * n) (t * n))"
    unfolding bekk_recursion_def using assms by (rule filter_var_recursion)
  have "shape1 innov = n"
    using assms(4,7) by (cases innov) (auto simp: has_shape_def shape1_def)
  with filter_var_block0 [of hvar innov c_mat a_mat b_mat]
  show "get_block (filter_var hvar innov c_mat a_mat b_mat) 0 n = get_block hvar 0 n"
    by simp
qed

theorem filter_var_fills_blocks_witness:
  "has_shape 2 2 [[1, 2], [0, 1]] \<and> has_shape 2 2 [[0, 1], [1, 0]] \<and>
   has_shape 2 2 [[1, 0], [1, 1]] \<and> has_shape 2 2 [[1, 2], [3, 4]] \<and>
   has_shape (2 * 2) (2 * 2) [[2, 1, 0, 0], [1, 2, 0, 0], [0, 0, 0, 0], [0, 0, 0, 0]] \<and>
   (1::nat) \<le> 1 \<and> (1::nat) < 2 \<and>
   get_block (filter_var [[2, 1, 0, 0], [1, 2, 0, 0], [0, 0, 0, 0], [0, 0, 0, 0]]
       [[1, 2], [3, 4]] [[1, 0], [1, 1]] [[1, 2], [0, 1]] [[0, 1], [1, 0]]) 2 4 =
     [[28, 12], [12, 8]]"
proof -
  let ?a = "[[1, 2], [0, 1]] :: mat" and ?b = "[[0, 1], [1, 0]] :: mat"
  let ?c = "[[1, 0], [1, 1]] :: mat" and ?u = "[[1, 2], [3, 4]] :: mat"
  let ?h = "[[2, 1, 0, 0], [1, 2, 0, 0], [0, 0, 0, 0], [0, 0, 0, 0]] :: mat"
  have s: "has_shape 2 2 ?a" "has_shape 2 2 ?b" "has_shape 2 2 ?c" "has_shape 2 2 ?u"
    "has_shape (2 * 2) (2 * 2) ?h"
    by (simp_all add: has_shape_def)
  have g: "get_block ?h 0 2 = [[2, 1], [1, 2]]"
    by (simp add: get_block_def)
  have "get_block (filter_var ?h ?u ?c ?a ?b) (1 * 2) ((1 + 1) * 2) =
       bekk_recursion ?a ?b (dot ?c (mT ?c)) (outer (?u ! (1 - 1)))
         (get_block (filter_var ?h ?u ?c ?a ?b) ((1 - 1) * 2) (1 * 2)) \<and>
     get_block (filter_var ?h ?u ?c ?a ?b) 0 2 = get_block ?h 0 2"
    by (rule filter_var_fills_blocks [OF s]) simp_all
  then have "get_block (filter_var ?h ?u ?c ?a ?b) 2 4 =
     bekk_recursion ?a ?b (dot ?c (mT ?c)) (outer [1, 2]) [[2, 1], [1, 2]]"
    unfolding g by simp
  also have "\<dots> = [[28, 12], [12, 8]]"
    by (simp add: bekk_recursion_def outer_def array_defs upt_conv_Cons)
  finally show ?thesis using s by simp
qed

subsection \<open>The unconditional variance\<close>

text \<open>
  C6 as stated does not hold: a matrix that the solver returns need not satisfy the
  equation within the tolerance. For \<open>A = [[0, 4/5], [1/10000, 0]]\<close>, \<open>B = 0\<close> and
  \<open>C = [[3/5, 0], [0, 1000]]\<close> (the eigenvalues of \<open>A \<otimes> A + B \<otimes> B\<close> are
  \<open>8 / 10\<^sup>5\<close> and \<open>- 8 / 10\<^sup>5\<close>, so the parameters are stationary) the routine
  stops in its third round, because no entry changed by \<open>10\<^sup>-\<^sup>8\<close> of its value, and
  \<^verbatim>\<open>find_stationary_var\<close> returns \<open>H = [[640000.3600000064, 0],
  [0, 1000000.0064000036000000064]]\<close>. The entry \<open>(0, 0)\<close> of \<open>CC' + AHA' + BHB'\<close> is
  \<open>640000.364096...\<close>: the equation is missed by more than \<open>4 / 1000\<close>, which is more
  than the tolerance \<open>10\<^sup>-\<^sup>8\<close> of the routine and more than \<open>1 / 1000\<close>.
\<close>

theorem find_stationary_var_misses_equation:
  "find_stationary_var sco_fixed_point [[0, 4 / 5], [1 / 10000, 0]] [[0, 0], [0, 0]]
     (Some [[3 / 5, 0], [0, 1000]]) =
     Inr (Some [[100000056250001 / 156250000, 0],
                [0, 15625000100000056250001 / 15625000000000000]]) \<and>
   \<not> close_to (1 / 10 ^ 8)
       [[100000056250001 / 156250000, 0], [0, 15625000100000056250001 / 15625000000000000]]
       (bekk_recursion [[0, 4 / 5], [1 / 10000, 0]] [[0, 0], [0, 0]]
          (dot [[3 / 5, 0], [0, 1000]] (mT [[3 / 5, 0], [0, 1000]]))
          [[100000056250001 / 156250000, 0], [0, 15625000100000056250001 / 15625000000000000]]
          [[100000056250001 / 156250000, 0], [0, 15625000100000056250001 / 15625000000000000]]) \<and>
   \<not> close_to (1 / 1000)
       [[100000056250001 / 156250000, 0], [0, 15625000100000056250001 / 15625000000000000]]
       (bekk_recursion [[0, 4 / 5], [1 / 10000, 0]] [[0, 0], [0, 0]]
          (dot [[3 / 5, 0], [0, 1000]] (mT [[3 / 5, 0], [0, 1000]]))
          [[100000056250001 / 156250000, 0], [0, 15625000100000056250001 / 15625000000000000]]
          [[100000056250001 / 156250000, 0], [0, 15625000100000056250001 / 15625000000000000]])"
proof -
  let ?H = "[[100000056250001 / 156250000, 0],
      [0, 15625000100000056250001 / 15625000000000000 :: real]]"
  have cc: "dot [[3 / 5, 0], [0, 1000]] (mT [[3 / 5, 0], [0, 1000]]) =
      [[9 / 25, 0], [0, 1000000 :: real]]"
    by (simp add: array_defs)
  have e: "eye 2 = [[1, 0], [0, 1]]" by (simp add: eye_def upt_conv_Cons)
  have n: "shape0 [[0, 4 / 5], [1 / 10000, 0 :: real]] = 2" by (simp add: shape0_def)
  have ret: "find_stationary_var sco_fixed_point [[0, 4 / 5], [1 / 10000, 0]] [[0, 0], [0, 0]]
     (Some [[3 / 5, 0], [0, 1000]]) = Inr (Some ?H)"
    by (simp add: find_stationary_var_def n cc e sco_fixed_point_weak_coupling)
  have rhs: "bekk_recursion [[0, 4 / 5], [1 / 10000, 0]] [[0, 0], [0, 0]]
      [[9 / 25, 0], [0, 1000000]] ?H ?H =
      [[9 / 25 + 16 / 25 * (15625000100000056250001 / 15625000000000000), 0],
       [0, 1000000 + 1 / 10 ^ 8 * (100000056250001 / 156250000)]]"
    by (simp add: bekk_recursion_def array_defs)
  have far: "\<not> close_to tol ?H
      (bekk_recursion [[0, 4 / 5], [1 / 10000, 0]] [[0, 0], [0, 0]]
         [[9 / 25, 0], [0, 1000000]] ?H ?H)" if "tol \<le> 1 / 1000" for tol
    unfolding rhs using that by (simp add: close_to_def)
  from ret far [of "1 / 10 ^ 8"] far [of "1 / 1000"] show ?thesis
    unfolding cc by simp
qed

text \<open>
  C6, amended: for parameter matrices of shape \<open>n \<times> n\<close>, \<^verbatim>\<open>find_stationary_var\<close>
  hands the map \<open>H \<mapsto> 2H - CC' - AHA' - BHB'\<close> and the identity matrix as the seed to
  the fixed-point routine and returns its result. A matrix \<open>H\<close> is a fixed point of this
  map exactly when \<open>H = CC' + AHA' + BHB'\<close>. A matrix that the routine returns is an
  accelerated iterate \<open>H\<close> of a previous iterate \<open>P0\<close> such that every entry of \<open>H\<close>
  differs from that of \<open>P0\<close> by less than \<open>10\<^sup>-\<^sup>8\<close> of the latter (by less than
  \<open>10\<^sup>-\<^sup>8\<close> where the latter is 0); an iterate that a round leaves unchanged
  satisfies the equation exactly. When the routine raises RuntimeError (no convergence
  within its bound), the result is \<^verbatim>\<open>None\<close>.
\<close>

theorem find_stationary_var_stopping_rule:
  assumes "has_shape n n a" and "has_shape n n b" and "has_shape n n c"
  shows "find_stationary_var solver a b (Some c) =
       (case solver (\<lambda>uvar. fixed_point uvar a b (dot c (mT c))) (eye n) of
          Inr h \<Rightarrow> Inr (Some h) | Inl RuntimeError \<Rightarrow> Inr None | Inl e \<Rightarrow> Inl e) \<and>
     (\<forall>H. has_shape n n H \<longrightarrow>
        (fixed_point H a b (dot c (mT c)) = H) =
        (H = bekk_recursion a b (dot c (mT c)) H H)) \<and>
     (\<forall>H. find_stationary_var sco_fixed_point a b (Some c) = Inr (Some H) \<longrightarrow>
        (\<exists>P0. has_shape n n P0 \<and>
           H = accelerate P0 (fixed_point P0 a b (dot c (mT c)))
                 (fixed_point (fixed_point P0 a b (dot c (mT c))) a b (dot c (mT c))) \<and>
           converged (1 / 10 ^ 8) H P0)) \<and>
     (\<forall>P0. has_shape n n P0 \<and>
        accelerate P0 (fixed_point P0 a b (dot c (mT c)))
          (fixed_point (fixed_point P0 a b (dot c (mT c))) a b (dot c (mT c))) = P0 \<longrightarrow>
        P0 = bekk_recursion a b (dot c (mT c)) P0 P0) \<and>
     (solver (\<lambda>uvar. fixed_point uvar a b (dot c (mT c))) (eye n) = Inl RuntimeError \<longrightarrow>
        find_stationary_var solver a b (Some c) = Inr None)"
proof -
  let ?cc = "dot c (mT c)"
  let ?F = "\<lambda>uvar. fixed_point uvar a b ?cc"
  have cc: "has_shape n n ?cc"
    using assms(3) by (rule has_shape_dot_transpose)
  have F: "has_shape n n (?F u)" if "has_shape n n u" for u
    using assms(1,2) cc that by (rule has_shape_fixed_point)
  have n: "shape0 a = n" using assms(1) by (simp add: has_shape_def shape0_def)
  have 1: "find_stationary_var solver a b (Some c) =
       (case solver ?F (eye n) of
          Inr h \<Rightarrow> Inr (Some h) | Inl RuntimeError \<Rightarrow> Inr None | Inl e \<Rightarrow> Inl e)" for solver
    by (simp add: find_stationary_var_def n)
  have 2: "(?F H = H) = (H = bekk_recursion a b ?cc H H)" if "has_shape n n H" for H
    using assms(1,2) cc that by (rule fixed_point_eq_iff)
  have 3: "\<exists>P0. has_shape n n P0 \<and> H = accelerate P0 (?F P0) (?F (?F P0)) \<and>
      converged (1 / 10 ^ 8) H P0"
    if ret: "find_stationary_var sco_fixed_point a b (Some c) = Inr (Some H)" for H
  proof -
    from ret have "sco_fixed_point ?F (eye n) = Inr H"
      unfolding 1 by (auto split: sum.splits error.splits)
    then have h: "fixed_point_helper ?F (eye n) (1 / 10 ^ 8) 500 = Inr H"
      by (simp add: sco_fixed_point_def)
    show ?thesis
      by (rule fixed_point_helper_returns [where func = ?F and n = n, OF F has_shape_eye h])
  qed
  have 4: "P0 = bekk_recursion a b ?cc P0 P0"
    if "has_shape n n P0" "accelerate P0 (?F P0) (?F (?F P0)) = P0" for P0
  proof -
    have "?F P0 = P0"
      using that(1) F [OF that(1)] F [OF F [OF that(1)]] that(2)
      by (rule accelerate_unchanged)
    then show ?thesis by (simp add: 2 [OF that(1)])
  qed
  have 5: "find_stationary_var solver a b (Some c) = Inr None"
    if "solver ?F (eye n) = Inl RuntimeError"
    using that by (simp add: 1)
  from 1 [of solver] 2 3 4 5 show ?thesis by blast
qed

theorem find_stationary_var_stopping_rule_witness:
  "has_shape 1 1 [[1 / 2]] \<and> has_shape 1 1 [[1]] \<and> has_shape 1 1 [[2]] \<and>
   find_stationary_var sco_fixed_point [[1 / 2]] [[1 / 2]] (Some [[1]]) = Inr (Some [[2]]) \<and>
   (\<exists>P0. has_shape 1 1 P0 \<and>
      [[2]] = accelerate P0 (fixed_point P0 [[1 / 2]] [[1 / 2]] (dot [[1]] (mT [[1]])))
                (fixed_point (fixed_point P0 [[1 / 2]] [[1 / 2]] (dot [[1]] (mT [[1]])))
                   [[1 / 2]] [[1 / 2]] (dot [[1]] (mT [[1]]))) \<and>
      converged (1 / 10 ^ 8) [[2]] P0) \<and>
   accelerate [[2]] (fixed_point [[2]] [[1 / 2]] [[1 / 2]] (dot [[1]] (mT [[1]])))
     (fixed_point (fixed_point [[2]] [[1 / 2]] [[1 / 2]] (dot [[1]] (mT [[1]])))
        [[1 / 2]] [[1 / 2]] (dot [[1]] (mT [[1]]))) = [[2]] \<and>
   [[2]] = bekk_recursion [[1 / 2]] [[1 / 2]] (dot [[1]] (mT [[1]])) [[2]] [[2]] \<and>
   fixed_point [[2]] [[1 / 2]] [[1 / 2]] (dot [[1]] (mT [[1]])) = [[2]] \<and>
   has_shape 1 1 [[0]] \<and>
   sco_fixed_point (\<lambda>uvar. fixed_point uvar [[1]] [[0]] (dot [[1]] (mT [[1]]))) (eye 1) =
     Inl RuntimeError \<and>
   find_stationary_var sco_fixed_point [[1]] [[0]] (Some [[1]]) = Inr None"
proof -
  have s: "has_shape 1 1 [[1 / 2]]" "has_shape 1 1 [[1]]" "has_shape 1 1 [[2]]"
    "has_shape 1 1 [[0]]"
    by (simp_all add: has_shape_def)
  have cc: "dot [[1]] (mT [[1]]) = [[1]]" and e: "eye 1 = [[1]]"
    by (simp_all add: array_defs)
  have run: "sco_fixed_point (\<lambda>uvar. fixed_point uvar [[1 / 2]] [[1 / 2]] (dot [[1]] (mT [[1]])))
      (eye 1) = Inr [[2]]"
    unfolding cc e by (rule sco_fixed_point_half)
  have fp: "fixed_point [[2]] [[1 / 2]] [[1 / 2]] (dot [[1]] (mT [[1]])) = [[2]]"
    by (simp add: fixed_point_def array_defs)
  have acc: "accelerate [[2]] (fixed_point [[2]] [[1 / 2]] [[1 / 2]] (dot [[1]] (mT [[1]])))
     (fixed_point (fixed_point [[2]] [[1 / 2]] [[1 / 2]] (dot [[1]] (mT [[1]])))
        [[1 / 2]] [[1 / 2]] (dot [[1]] (mT [[1]]))) = [[2]]"
    unfolding fp by (simp add: accelerate_def del2_def)
  have stuck: "sco_fixed_point (\<lambda>uvar. fixed_point uvar [[1]] [[0]] (dot [[1]] (mT [[1]])))
      (eye 1) = Inl RuntimeError"
    unfolding cc e by (rule sco_fixed_point_unit_root)
  note good = find_stationary_var_stopping_rule
    [OF s(1) s(1) s(2), of sco_fixed_point]
  note bad = find_stationary_var_stopping_rule
    [OF s(2) s(4) s(2), of sco_fixed_point]
  have ret: "find_stationary_var sco_fixed_point [[1 / 2]] [[1 / 2]] (Some [[1]]) =
      Inr (Some [[2]])"
    using good run by simp
  have prev: "\<exists>P0. has_shape 1 1 P0 \<and>
      [[2]] = accelerate P0 (fixed_point P0 [[1 / 2]] [[1 / 2]] (dot [[1]] (mT [[1]])))
                (fixed_point (fixed_point P0 [[1 / 2]] [[1 / 2]] (dot [[1]] (mT [[1]])))
                   [[1 / 2]] [[1 / 2]] (dot [[1]] (mT [[1]]))) \<and>
      converged (1 / 10 ^ 8) [[2]] P0"
    using good ret by blast
  have eq: "[[2]] = bekk_recursion [[1 / 2]] [[1 / 2]] (dot [[1]] (mT [[1]])) [[2]] [[2]]"
    using good s(3) acc by blast
  have none: "find_stationary_var sco_fixed_point [[1]] [[0]] (Some [[1]]) = Inr None"
    using bad stuck by blast
  from s ret prev acc eq fp stuck none show ?thesis by blast
qed

subsection \<open>Deriving C from a target\<close>

text \<open>
  C5: given that the Cholesky routine returns the lower triangular factor of every
  positive definite matrix, \<^verbatim>\<open>find_cmat\<close> returns, whenever
  \<open>M = target - A target A' - B target B'\<close> is positive definite, a lower triangular
  \<open>C\<close> with \<open>CC' = M\<close>; and when the routine raises LinAlgError, \<^verbatim>\<open>find_cmat\<close>
  returns \<^verbatim>\<open>None\<close> and raises nothing. The model \<open>sl_cholesky\<close> of the routine
  meets the assumption (\<open>sl_cholesky_contract\<close>).
\<close>

theorem find_cmat_cholesky_factor:
  assumes "cholesky_contract cholesky"
  shows "(pos_def (target_residual a b target) \<longrightarrow>
       (\<exists>c. find_cmat cholesky a b target = Inr (Some c) \<and> lower_triangular c \<and>
          dot c (mT c) = target_residual a b target)) \<and>
     (cholesky (target_residual a b target) True = Inl LinAlgError \<longrightarrow>
        find_cmat cholesky a b target = Inr None)"
proof (intro conjI impI)
  assume "pos_def (target_residual a b target)"
  with assms obtain L where "cholesky (target_residual a b target) True = Inr L"
    "lower_triangular L" "dot L (mT L) = target_residual a b target"
    unfolding cholesky_contract_def by blast
  then show "\<exists>c. find_cmat cholesky a b target = Inr (Some c) \<and> lower_triangular c \<and>
      dot c (mT c) = target_residual a b target"
    by (simp add: find_cmat_def)
next
  assume "cholesky (target_residual a b target) True = Inl LinAlgError"
  then show "find_cmat cholesky a b target = Inr None"
    by (simp add: find_cmat_def)
qed

theorem find_cmat_cholesky_factor_witness:
  "cholesky_contract sl_cholesky \<and>
   pos_def (target_residual [[1 / 2, 0], [0, 1 / 2]] [[1 / 2, 0], [0, 1 / 2]] [[8, 4], [4, 8]]) \<and>
   find_cmat sl_cholesky [[1 / 2, 0], [0, 1 / 2]] [[1 / 2, 0], [0, 1 / 2]] [[8, 4], [4, 8]] =
     Inr (Some [[2, 0], [1, sqrt 3]]) \<and>
   (\<exists>c. find_cmat sl_cholesky [[1 / 2, 0], [0, 1 / 2]] [[1 / 2, 0], [0, 1 / 2]] [[8, 4], [4, 8]] =
       Inr (Some c) \<and> lower_triangular c \<and> dot c (mT c) = [[4, 2], [2, 4]]) \<and>
   sl_cholesky (target_residual [[1 / 2]] [[1 / 2]] [[0]]) True = Inl LinAlgError \<and>
   find_cmat sl_cholesky [[1 / 2]] [[1 / 2]] [[0]] = Inr None"
proof -
  let ?a = "[[1 / 2, 0], [0, 1 / 2]] :: mat" and ?t = "[[8, 4], [4, 8]] :: mat"
  note inst = find_cmat_cholesky_factor [OF sl_cholesky_contract]
  have pd: "pos_def (target_residual ?a ?a ?t)"
    unfolding residual_example by (rule pos_def_example)
  have ex: "\<exists>c. find_cmat sl_cholesky ?a ?a ?t = Inr (Some c) \<and> lower_triangular c \<and>
      dot c (mT c) = [[4, 2], [2, 4]]"
    using inst [of ?a ?a ?t] pd unfolding residual_example by blast
  have val: "find_cmat sl_cholesky ?a ?a ?t = Inr (Some [[2, 0], [1, sqrt 3]])"
    by (simp add: find_cmat_def residual_example cholesky_example)
  have r0: "target_residual [[1 / 2]] [[1 / 2]] [[0]] = [[0]]"
    by (simp add: target_residual_def array_defs)
  have fail: "sl_cholesky (target_residual [[1 / 2]] [[1 / 2]] [[0]]) True = Inl LinAlgError"
    unfolding r0 by (simp add: sl_cholesky_def has_shape_def)
  have none: "find_cmat sl_cholesky [[1 / 2]] [[1 / 2]] [[0]] = Inr None"
    using inst [of "[[1 / 2]]" "[[1 / 2]]" "[[0]]"] fail by blast
  from sl_cholesky_contract pd val ex fail none show ?thesis by blast
qed

text \<open>
  C9 as stated does not hold: for the all-zero series of two observations of one stock
  the target is \<open>[[0]]\<close>, and \<^verbatim>\<open>find_cmat\<close> then returns \<^verbatim>\<open>None\<close>, not the
  zero matrix.
\<close>

theorem zero_innovations_counterexample:
  "estimate_target [[0], [0]] True = Some [[0]] \<and>
   find_cmat sl_cholesky [[1 / 2]] [[1 / 2]] [[0]] = Inr None \<and>
   find_cmat sl_cholesky [[1 / 2]] [[1 / 2]] [[0]] \<noteq> Inr (Some [[0]])"
proof -
  have "target_residual [[1 / 2]] [[1 / 2]] [[0]] = [[0]]"
    by (simp add: target_residual_def array_defs)
  then have "find_cmat sl_cholesky [[1 / 2]] [[1 / 2]] [[0]] = Inr None"
    by (simp add: find_cmat_def sl_cholesky_def has_shape_def)
  moreover have "estimate_target [[0], [0]] True = Some [[0]]"
    by (simp add: estimate_target_def array_defs)
  ultimately show ?thesis by simp
qed

text \<open>
  C9, amended: for \<open>T \<ge> 1\<close> all-zero innovations of \<open>n \<ge> 1\<close> stocks the derived
  target is the zero matrix, \<open>target - A target A' - B target B'\<close> is the zero matrix
  for all \<open>n \<times> n\<close> matrices \<open>A\<close> and \<open>B\<close>, its factorisation fails and
  \<^verbatim>\<open>find_cmat\<close> returns \<^verbatim>\<open>None\<close>; the constraint score is computed from the
  eigenvalues of \<open>A \<otimes> A + B \<otimes> B\<close> alone.
\<close>

theorem zero_innovations_are_infeasible:
  assumes "0 < n" and "0 < T" and "has_shape n n a" and "has_shape n n b"
  shows "estimate_target (zeros T n) True = Some (zeros n n) \<and>
     target_residual a b (zeros n n) = zeros n n \<and>
     find_cmat sl_cholesky a b (zeros n n) = Inr None \<and>
     constraint eigvals \<lparr>amat = a, bmat = b, cmat = None\<rparr> =
       (case eigvals (kron_sum a b) of Inl e \<Rightarrow> Inl e | Inr ev \<Rightarrow> np_max (map cmod ev))"
  using assms
  by (simp add: estimate_target_zeros target_residual_zeros find_cmat_def sl_cholesky_zeros
      constraint_def kron_sum_def)

theorem zero_innovations_are_infeasible_witness:
  "(0::nat) < 2 \<and> (0::nat) < 3 \<and> has_shape 2 2 [[1 / 2, 1], [0, 1 / 2]] \<and>
   has_shape 2 2 [[1 / 3, 0], [0, 1 / 3]] \<and>
   estimate_target [[0, 0], [0, 0], [0, 0]] True = Some [[0, 0], [0, 0]] \<and>
   target_residual [[1 / 2, 1], [0, 1 / 2]] [[1 / 3, 0], [0, 1 / 3]] [[0, 0], [0, 0]] =
     [[0, 0], [0, 0]] \<and>
   find_cmat sl_cholesky [[1 / 2, 1], [0, 1 / 2]] [[1 / 3, 0], [0, 1 / 3]] [[0, 0], [0, 0]] =
     Inr None"
proof -
  have z: "zeros 3 2 = [[0, 0], [0, 0], [0, 0]]" "zeros 2 2 = [[0, 0], [0, 0]]"
    by (simp_all add: zeros_def eval_nat_numeral)
  have s: "has_shape 2 2 [[1 / 2, 1], [0, 1 / 2]]" "has_shape 2 2 [[1 / 3, 0], [0, 1 / 3]]"
    by (simp_all add: has_shape_def)
  have p: "(0::nat) < 2" "(0::nat) < 3" by simp_all
  from zero_innovations_are_infeasible [OF p s, unfolded z] s show ?thesis by simp
qed

subsection \<open>The stationarity constraint\<close>

text \<open>
  C4: given that the eigenvalue routine returns the eigenvalues of
  \<open>A \<otimes> A + B \<otimes> B\<close> (a list that is not empty), \<^verbatim>\<open>constraint\<close> returns the
  spectral radius of this matrix, a real number, and the model is stationary exactly
  when this score is smaller than 1.
\<close>

theorem constraint_is_spectral_radius:
  assumes "eigvals (kron_sum (amat p) (bmat p)) = Inr ev" and "ev \<noteq> []"
    and "set ev = spectrum (kron_sum (amat p) (bmat p))"
  shows "constraint eigvals p = Inr (spectral_radius (kron_sum (amat p) (bmat p))) \<and>
     (spectral_radius (kron_sum (amat p) (bmat p)) < 1) = stationary (amat p) (bmat p)"
proof -
  let ?K = "kron_sum (amat p) (bmat p)"
  have img: "cmod ` spectrum ?K = set (map cmod ev)" using assms(3) by simp
  have "constraint eigvals p = np_max (map cmod ev)"
    using assms(1) by (simp add: constraint_def kron_sum_def)
  also have "\<dots> = Inr (Max (set (map cmod ev)))"
    using assms(2) by (intro np_max_Max) simp
  finally have 1: "constraint eigvals p = Inr (spectral_radius ?K)"
    by (simp add: spectral_radius_def img)
  have "(Max (set (map cmod ev)) < 1) = (\<forall>x \<in> set (map cmod ev). x < 1)"
    using assms(2) by (intro Max_less_iff) simp_all
  then have 2: "(spectral_radius ?K < 1) = stationary (amat p) (bmat p)"
    unfolding spectral_radius_def stationary_def img [symmetric] by blast
  from 1 2 show ?thesis ..
qed

theorem constraint_is_spectral_radius_witness:
  "(\<lambda>M. Inr [complex_of_real (M ! 0 ! 0)])
      (kron_sum (amat \<lparr>amat = [[1 / 2]], bmat = [[1 / 2]], cmat = None\<rparr>)
         (bmat \<lparr>amat = [[1 / 2]], bmat = [[1 / 2]], cmat = None\<rparr>)) =
     (Inr [complex_of_real (1 / 2)] :: error + complex list) \<and>
   set [complex_of_real (1 / 2)] = spectrum (kron_sum [[1 / 2]] [[1 / 2]]) \<and>
   constraint (\<lambda>M. Inr [complex_of_real (M ! 0 ! 0)])
     \<lparr>amat = [[1 / 2]], bmat = [[1 / 2]], cmat = None\<rparr> = Inr (1 / 2) \<and>
   spectral_radius (kron_sum [[1 / 2]] [[1 / 2]]) = 1 / 2 \<and>
   stationary [[1 / 2]] [[1 / 2]]"
proof -
  let ?p = "\<lparr>amat = [[1 / 2]], bmat = [[1 / 2]], cmat = None\<rparr>"
  let ?eig = "\<lambda>M. Inr [complex_of_real (M ! 0 ! 0)] :: error + complex list"
  have K: "kron_sum [[1 / 2]] [[1 / 2]] = [[1 / 2]]"
    by (simp add: kron_sum_def kron_def madd_def)
  have sp: "set [complex_of_real (1 / 2)] = spectrum (kron_sum (amat ?p) (bmat ?p))"
    by (simp add: K spectrum_1x1)
  have run: "?eig (kron_sum (amat ?p) (bmat ?p)) = Inr [complex_of_real (1 / 2)]"
    by (simp add: K)
  have rad: "spectral_radius (kron_sum [[1 / 2]] [[1 / 2]]) = 1 / 2"
    by (simp add: K spectral_radius_def spectrum_1x1)
  from constraint_is_spectral_radius [of ?eig ?p, OF run _ sp] rad run sp
  show ?thesis by simp
qed

subsection \<open>The objective function\<close>

text \<open>
  C1: when \<open>theta\<close> decodes to parameters whose constraint score is at least 1, or
  whose \<open>C\<close> matrix is \<^verbatim>\<open>None\<close>, \<^verbatim>\<open>BEKK.likelihood\<close> returns the sentinel
  \<open>1e10\<close> and leaves the object as it was (no buffer is allocated); the result is the
  same whatever the covariance recursion and the likelihood evaluator are, so neither of
  them is run.
\<close>

theorem likelihood_returns_sentinel:
  assumes "self_param_start self = Some start"
    and "ext_BEKKParams ext theta target (shape1 (self_innov self)) (restriction start) = Inr p"
    and "constraint (ext_eigvals ext) p = Inr score"
    and "1 \<le> score \<or> cmat p = None"
  shows "likelihood ext self theta target = (Inr (Float (10 ^ 10)), self) \<and>
     likelihood
       (ext\<lparr>ext_recursion := rec, ext_likelihood := lik,
            ext_filter_var_python := rec_py, ext_likelihood_python := lik_py\<rparr>)
       self theta target = (Inr (Float (10 ^ 10)), self)"
proof
  show "likelihood ext self theta target = (Inr (Float (10 ^ 10)), self)"
    using assms by (rule likelihood_sentinel_branch)
  show "likelihood
       (ext\<lparr>ext_recursion := rec, ext_likelihood := lik,
            ext_filter_var_python := rec_py, ext_likelihood_python := lik_py\<rparr>)
       self theta target = (Inr (Float (10 ^ 10)), self)"
    by (rule likelihood_sentinel_branch [OF assms(1) _ _ assms(4)]) (simp_all add: assms)
qed

theorem likelihood_returns_sentinel_witness:
  "self_param_start
      \<lparr>self_innov = [[1]], self_param_start = Some \<lparr>restriction = ''scalar''\<rparr>,
       self_cython = True, self_hvar = None\<rparr> = Some \<lparr>restriction = ''scalar''\<rparr> \<and>
   ext_BEKKParams (externals_one_stock sco_fixed_point) [1, 1 / 2, 1] None 1 ''scalar'' =
     Inr \<lparr>amat = [[1]], bmat = [[1 / 2]], cmat = Some [[1]]\<rparr> \<and>
   constraint (ext_eigvals (externals_one_stock sco_fixed_point))
     \<lparr>amat = [[1]], bmat = [[1 / 2]], cmat = Some [[1]]\<rparr> = Inr (5 / 4) \<and>
   likelihood (externals_one_stock sco_fixed_point)
     \<lparr>self_innov = [[1]], self_param_start = Some \<lparr>restriction = ''scalar''\<rparr>,
      self_cython = True, self_hvar = None\<rparr> [1, 1 / 2, 1] None =
     (Inr (Float (10 ^ 10)),
      \<lparr>self_innov = [[1]], self_param_start = Some \<lparr>restriction = ''scalar''\<rparr>,
       self_cython = True, self_hvar = None\<rparr>) \<and>
   ext_BEKKParams (externals_one_stock sco_fixed_point) [1 / 2, 1 / 2] (Some [[0]]) 1 ''scalar'' =
     Inr \<lparr>amat = [[1 / 2]], bmat = [[1 / 2]], cmat = None\<rparr> \<and>
   constraint (ext_eigvals (externals_one_stock sco_fixed_point))
     \<lparr>amat = [[1 / 2]], bmat = [[1 / 2]], cmat = None\<rparr> = Inr (1 / 2) \<and>
   likelihood (externals_one_stock sco_fixed_point)
     \<lparr>self_innov = [[1]], self_param_start = Some \<lparr>restriction = ''scalar''\<rparr>,
      self_cython = True, self_hvar = None\<rparr> [1 / 2, 1 / 2] (Some [[0]]) =
     (Inr (Float (10 ^ 10)),
      \<lparr>self_innov = [[1]], self_param_start = Some \<lparr>restriction = ''scalar''\<rparr>,
       self_cython = True, self_hvar = None\<rparr>)"
proof -
  let ?S = "\<lparr>self_innov = [[1]], self_param_start = Some \<lparr>restriction = ''scalar''\<rparr>,
      self_cython = True, self_hvar = None\<rparr>"
  let ?E = "externals_one_stock sco_fixed_point"
  let ?P = "\<lparr>amat = [[1]], bmat = [[1 / 2]], cmat = Some [[1]]\<rparr>"
  let ?Q = "\<lparr>amat = [[1 / 2]], bmat = [[1 / 2]], cmat = None\<rparr>"
  have st: "self_param_start ?S = Some \<lparr>restriction = ''scalar''\<rparr>" by simp
  have n: "shape1 (self_innov ?S) = 1" by (simp add: shape1_def)
  have d1: "ext_BEKKParams ?E [1, 1 / 2, 1] None 1 ''scalar'' = Inr ?P"
    by (simp add: externals_one_stock_def bekkparams_one_stock_def)
  have c1: "constraint (ext_eigvals ?E) ?P = Inr (5 / 4)"
    by (simp add: externals_one_stock_def constraint_one_stock)
  have r0: "target_residual [[1 / 2]] [[1 / 2]] [[0]] = [[0]]"
    by (simp add: target_residual_def array_defs)
  have d2: "ext_BEKKParams ?E [1 / 2, 1 / 2] (Some [[0]]) 1 ''scalar'' = Inr ?Q"
    by (simp add: externals_one_stock_def bekkparams_one_stock_def find_cmat_def r0
        sl_cholesky_def has_shape_def Let_def)
  have c2: "constraint (ext_eigvals ?E) ?Q = Inr (1 / 2)"
    by (simp add: externals_one_stock_def constraint_one_stock)
  have l1: "likelihood ?E ?S [1, 1 / 2, 1] None = (Inr (Float (10 ^ 10)), ?S)"
    using likelihood_returns_sentinel [of ?S _ ?E "[1, 1 / 2, 1]" None ?P "5 / 4", OF st]
      d1 c1 unfolding n by simp
  have l2: "likelihood ?E ?S [1 / 2, 1 / 2] (Some [[0]]) = (Inr (Float (10 ^ 10)), ?S)"
    using likelihood_returns_sentinel [of ?S _ ?E "[1 / 2, 1 / 2]" "Some [[0]]" ?Q "1 / 2", OF st]
      d2 c2 unfolding n by simp
  from st d1 c1 l1 d2 c2 l2 show ?thesis by blast
qed

text \<open>
  C8 (what the code does): when the decoded parameters pass the feasibility check and the
  unconditional variance is \<^verbatim>\<open>None\<close> because the fixed-point routine did not
  converge, \<^verbatim>\<open>BEKK.likelihood\<close> has no branch for it. It stores NaN in every entry
  of the initial slot of the buffer, runs the covariance recursion and returns what the
  likelihood evaluator makes of that buffer: for one observation of one stock the
  RuntimeError of the evaluator, whose factorisation fails on NaN, not the sentinel.
\<close>

theorem likelihood_runs_on_failed_fixed_point:
  assumes "self_param_start self = Some start"
    and "ext_BEKKParams ext theta target (shape1 (self_innov self)) (restriction start) = Inr p"
    and "constraint (ext_eigvals ext) p = Inr score"
    and "score < 1" and "cmat p = Some c"
    and "unconditional_var (ext_fixed_point ext) p = Inr None"
    and "0 < shape0 (self_innov self)"
  shows "likelihood ext self theta target =
     (let nstocks = shape1 (self_innov self);
          hv0 = (zeros3 (shape0 (self_innov self)) nstocks nstocks)
                  [0 := replicate nstocks (replicate nstocks NaN)]
      in if self_cython self
         then run_filter (ext_recursion ext) (ext_likelihood ext) self hv0 p
         else run_filter (ext_filter_var_python ext) (ext_likelihood_python ext) self hv0 p)"
  using assms by (simp add: likelihood_def Let_def slot_value_def)

theorem likelihood_runs_on_failed_fixed_point_witness:
  "ext_BEKKParams (externals_one_stock (\<lambda>f x. Inl RuntimeError)) [1 / 2, 1 / 2, 1] None 1
      ''scalar'' = Inr \<lparr>amat = [[1 / 2]], bmat = [[1 / 2]], cmat = Some [[1]]\<rparr> \<and>
   constraint (ext_eigvals (externals_one_stock (\<lambda>f x. Inl RuntimeError)))
     \<lparr>amat = [[1 / 2]], bmat = [[1 / 2]], cmat = Some [[1]]\<rparr> = Inr (1 / 2) \<and>
   unconditional_var (ext_fixed_point (externals_one_stock (\<lambda>f x. Inl RuntimeError)))
     \<lparr>amat = [[1 / 2]], bmat = [[1 / 2]], cmat = Some [[1]]\<rparr> = Inr None \<and>
   likelihood (externals_one_stock (\<lambda>f x. Inl RuntimeError))
     \<lparr>self_innov = [[1]], self_param_start = Some \<lparr>restriction = ''scalar''\<rparr>,
      self_cython = True, self_hvar = None\<rparr> [1 / 2, 1 / 2, 1] None =
     (Inl RuntimeError,
      \<lparr>self_innov = [[1]], self_param_start = Some \<lparr>restriction = ''scalar''\<rparr>,
       self_cython = True, self_hvar = Some [[[NaN]]]\<rparr>)"
proof -
  let ?S = "\<lparr>self_innov = [[1]], self_param_start = Some \<lparr>restriction = ''scalar''\<rparr>,
      self_cython = True, self_hvar = None\<rparr>"
  let ?E = "externals_one_stock (\<lambda>f x. Inl RuntimeError)"
  let ?P = "\<lparr>amat = [[1 / 2]], bmat = [[1 / 2]], cmat = Some [[1]]\<rparr>"
  have st: "self_param_start ?S = Some \<lparr>restriction = ''scalar''\<rparr>" by simp
  have n: "shape1 (self_innov ?S) = 1" "shape0 (self_innov ?S) = 1"
    by (simp_all add: shape1_def shape0_def)
  have d: "ext_BEKKParams ?E [1 / 2, 1 / 2, 1] None n ''scalar'' = Inr ?P" for n
    by (simp add: externals_one_stock_def bekkparams_one_stock_def)
  have c: "constraint (ext_eigvals ?E) ?P = Inr (1 / 2)"
    by (simp add: externals_one_stock_def constraint_one_stock)
  have u: "unconditional_var (ext_fixed_point ?E) ?P = Inr None"
    by (simp add: externals_one_stock_def unconditional_var_def get_uvar_def
        find_stationary_var_def)
  have "likelihood ?E ?S [1 / 2, 1 / 2, 1] None =
      (let nstocks = shape1 (self_innov ?S);
           hv0 = (zeros3 (shape0 (self_innov ?S)) nstocks nstocks)
                   [0 := replicate nstocks (replicate nstocks NaN)]
       in if self_cython ?S
          then run_filter (ext_recursion ?E) (ext_likelihood ?E) ?S hv0 ?P
          else run_filter (ext_filter_var_python ?E) (ext_likelihood_python ?E) ?S hv0 ?P)"
    by (rule likelihood_runs_on_failed_fixed_point [OF st _ c _ _ u])
      (simp_all add: shape0_def shape1_def d)
  also have "\<dots> = (Inl RuntimeError, ?S\<lparr>self_hvar := Some [[[NaN]]]\<rparr>)"
    by (simp add: shape0_def shape1_def Let_def zeros3_def run_filter_def
        externals_one_stock_def recursion_one_obs_def likelihood_one_obs_def)
  finally show ?thesis using d c u by simp
qed

subsection \<open>The likelihood evaluator\<close>

text \<open>
  C3: let the buffer be the block diagonal matrix of \<open>n \<times> n\<close> matrices
  \<open>H\<^sub>1, \<dots>, H\<^sub>T\<close> with determinants other than zero and with inverses
  \<open>H\<^sub>t\<^sup>-\<^sup>1\<close> (its diagonal blocks, \<open>get_block_block_diag\<close>), and let \<^verbatim>\<open>splu\<close> return a
  factorisation of it. Then \<^verbatim>\<open>utils.likelihood\<close> returns the sum of \<open>log |x|\<close> over
  the entries \<open>x\<close> of the diagonal of \<open>U\<close> that are not NaN, plus the inner product of
  the innovations with the solution that the same factorisation gives for them. When the
  factorisation is one of the buffer (no NaN, the product of the diagonal of \<open>U\<close> is the
  determinant up to sign, \<open>solve\<close> solves), this value is the sum over \<open>t\<close> of
  \<open>log |det H\<^sub>t| + u\<^sub>t' H\<^sub>t\<^sup>-\<^sup>1 u\<^sub>t\<close>.
\<close>

theorem utils_likelihood_gaussian_sum:
  assumes "\<forall>H \<in> set Hs. has_shape n n H \<and> det H \<noteq> 0"
    and "list_all2 (is_inverse n) His Hs"
    and "has_shape (length Hs) n us"
    and "splu (block_diag Hs) = Inr factor"
  shows "utils_likelihood splu (block_diag Hs) us =
       Inr (sum_list (map (\<lambda>x. ln \<bar>x\<bar>) (not_nan (np_diag (lu_U factor)))) +
            vdot (lu_solve factor (concat us)) (concat us)) \<and>
     (splu_contract factor (block_diag Hs) (concat us) \<longrightarrow>
        utils_likelihood splu (block_diag Hs) us = Inr (gaussian_terms Hs His us))"
proof (intro conjI impI)
  show val: "utils_likelihood splu (block_diag Hs) us =
       Inr (sum_list (map (\<lambda>x. ln \<bar>x\<bar>) (not_nan (np_diag (lu_U factor)))) +
            vdot (lu_solve factor (concat us)) (concat us))"
    using assms(4) by (rule utils_likelihood_value)
  assume c: "splu_contract factor (block_diag Hs) (concat us)"
  let ?ds = "not_nan (np_diag (lu_U factor))"
  let ?z = "lu_solve factor (concat us)"
  have shapes: "\<forall>H \<in> set Hs. has_shape n n H" and nz: "\<forall>H \<in> set Hs. det H \<noteq> 0"
    using assms(1) by simp_all
  have lens: "length Hs = length His" "length His = length us"
    using assms(2,3) by (simp_all add: list_all2_lengthD has_shape_def)
  have dets: "det (block_diag Hs) = prod_list (map det Hs)"
    using shapes by (rule det_block_diag)
  have nz': "\<forall>x \<in> set (map det Hs). x \<noteq> 0" using nz by simp
  then have "prod_list (map det Hs) \<noteq> 0" by (auto simp: prod_list_zero_iff)
  moreover have pr: "\<bar>prod_list ?ds\<bar> = \<bar>prod_list (map det Hs)\<bar>"
    using c by (simp add: splu_contract_def dets)
  ultimately have "prod_list ?ds \<noteq> 0" by auto
  then have "\<forall>x \<in> set ?ds. x \<noteq> 0" by (auto simp: prod_list_zero_iff)
  then have "sum_list (map (\<lambda>x. ln \<bar>x\<bar>) ?ds) = ln \<bar>prod_list ?ds\<bar>"
    by (rule ln_abs_prod_list [symmetric])
  also have "\<dots> = sum_list (map (\<lambda>x. ln \<bar>x\<bar>) (map det Hs))"
    unfolding pr using nz' by (rule ln_abs_prod_list)
  finally have logdet: "sum_list (map (\<lambda>x. ln \<bar>x\<bar>) ?ds) = sum_list (map (\<lambda>H. ln \<bar>det H\<bar>) Hs)"
    by (simp add: o_def)
  have "length (block_diag Hs) = n * length Hs"
    using shapes by (intro length_block_diag) (simp add: has_shape_def)
  with c have lz: "length ?z = n * length Hs" and sol: "mv (block_diag Hs) ?z = concat us"
    by (simp_all add: splu_contract_def)
  have "vdot ?z (concat us) =
      sum_list (map (\<lambda>(H, Hi, u). vdot u (mv Hi u)) (zip Hs (zip His us)))"
    using assms(2) shapes _ _ lz sol
  proof (rule solve_blocks)
    show "length us = length Hs" using lens by simp
    show "\<forall>u \<in> set us. length u = n"
      using assms(3) by (simp add: has_shape_def list_all_iff)
  qed
  with logdet show "utils_likelihood splu (block_diag Hs) us = Inr (gaussian_terms Hs His us)"
    by (simp add: val gaussian_terms_split [OF lens])
qed

theorem utils_likelihood_gaussian_sum_witness:
  "has_shape 1 1 [[2]] \<and> det [[2]] \<noteq> 0 \<and> has_shape 1 1 [[4]] \<and> det [[4]] \<noteq> 0 \<and>
   list_all2 (is_inverse 1) [[[1 / 2]], [[1 / 4]]] [[[2]], [[4]]] \<and>
   has_shape (length [[[2]], [[4::real]]]) 1 [[1], [2]] \<and>
   block_diag [[[2]], [[4]]] = [[2, 0], [0, 4]] \<and>
   (\<exists>factor. splu_diagonal [[2, 0], [0, 4]] = Inr factor \<and>
      splu_contract factor [[2, 0], [0, 4]] (concat [[1], [2]])) \<and>
   utils_likelihood splu_diagonal [[2, 0], [0, 4]] [[1], [2]] = Inr (ln 2 + ln 4 + 3 / 2) \<and>
   utils_likelihood
     (\<lambda>A. Inr \<lparr>lu_U = [[Float 2, Float 0], [Float 0, NaN]], lu_solve = (\<lambda>b. b)\<rparr>)
     [[2, 0], [0, 4]] [[1], [2]] = Inr (ln 2 + 5)"
proof -
  let ?Hs = "[[[2]], [[4]]] :: mat list" and ?His = "[[[1 / 2]], [[1 / 4]]] :: mat list"
  let ?us = "[[1], [2]] :: mat"
  let ?F = "\<lparr>lu_U = [[Float 2, Float 0], [Float 0, Float 4]],
      lu_solve = (\<lambda>b. map (\<lambda>i. b ! i / [[2, 0], [0, 4::real]] ! i ! i) [0..<2])\<rparr>"
  let ?G = "\<lparr>lu_U = [[Float 2, Float 0], [Float 0, NaN]], lu_solve = (\<lambda>b. b)\<rparr>"
  have h1: "\<forall>H \<in> set ?Hs. has_shape 1 1 H \<and> det H \<noteq> 0"
    by (simp add: has_shape_def)
  have h2: "list_all2 (is_inverse 1) ?His ?Hs"
    using is_inverse_1x1 [of 2] is_inverse_1x1 [of 4] by simp
  have h3: "has_shape (length ?Hs) 1 ?us"
    by (simp add: has_shape_def)
  have bd: "block_diag ?Hs = [[2, 0], [0, 4]]" by (rule block_diag_two)
  have run: "splu_diagonal (block_diag ?Hs) = Inr ?F"
    by (simp add: bd splu_diagonal_def np_diag_def upt_conv_Cons)
  have d: "det [[2, 0], [0, 4]] = 8" by (subst det_2x2) simp
  have c: "splu_contract ?F (block_diag ?Hs) (concat ?us)"
    by (simp add: bd splu_contract_def np_diag_def not_nan_def List.map_filter_def
        d mv_def upt_conv_Cons del: det.simps)
  have g: "gaussian_terms ?Hs ?His ?us = ln 2 + ln 4 + 3 / 2"
    by (simp add: gaussian_terms_def mv_def)
  have v1: "utils_likelihood splu_diagonal (block_diag ?Hs) ?us = Inr (gaussian_terms ?Hs ?His ?us)"
    using utils_likelihood_gaussian_sum [where Hs = ?Hs and n = 1 and His = ?His
        and us = ?us and splu = splu_diagonal and factor = ?F] h1 h2 h3 run c
    by blast
  have v2: "utils_likelihood (\<lambda>A. Inr ?G) (block_diag ?Hs) ?us =
      Inr (sum_list (map (\<lambda>x. ln \<bar>x\<bar>) (not_nan (np_diag (lu_U ?G)))) +
           vdot (lu_solve ?G (concat ?us)) (concat ?us))"
    using utils_likelihood_gaussian_sum [where Hs = ?Hs and n = 1 and His = ?His
        and us = ?us and splu = "\<lambda>A. Inr ?G" and factor = ?G] h1 h2 h3
    by blast
  have v2': "sum_list (map (\<lambda>x. ln \<bar>x\<bar>) (not_nan (np_diag (lu_U ?G)))) +
           vdot (lu_solve ?G (concat ?us)) (concat ?us) = ln 2 + 5"
    by (simp add: np_diag_def not_nan_def List.map_filter_def upt_conv_Cons)
  have h1': "has_shape 1 1 [[2]] \<and> det [[2]] \<noteq> 0 \<and> has_shape 1 1 [[4]] \<and> det [[4]] \<noteq> 0"
    using h1 by simp
  from h1' h2 h3 bd run c v1 v2 show ?thesis
    unfolding bd g v2' by blast
qed

end
